theory Spec2Isabelle
  imports Complex_Main
begin

section \<open>Python values and exceptions\<close>

text \<open>
  The program is Python 2.7. Its floats are modelled by exact reals: no rounding, no
  underflow to zero, no overflow to infinity. So a statement here speaks of a divisor
  being zero through the expression that is the divisor, not through the operands it
  was rounded from. The literals \<open>inf\<close> and \<open>nan\<close> have no real value and are outside
  the model; \<open>py_float\<close> reports them as \<open>NonFinite\<close>, which is not a Python exception.
  Every other constructor of \<open>py_error\<close> is an exception the source can raise; each
  \<open>assert\<close> statement of the modelled functions has a constructor of its own.
\<close>

datatype py_error =
    AssertHeader string
  | AssertBadData
  | AssertLengths
  | AssertOvernight0
  | ValueError
  | TypeError
  | IndexError
  | OverflowError
  | ZeroDivisionError
  | NonFinite

definition bindE :: "py_error + 'a \<Rightarrow> ('a \<Rightarrow> py_error + 'b) \<Rightarrow> py_error + 'b" where
  "bindE m f = (case m of Inl e \<Rightarrow> Inl e | Inr x \<Rightarrow> f x)"

text \<open>A list comprehension whose element expression can raise: the first failure wins.\<close>

fun mapE :: "('a \<Rightarrow> py_error + 'b) \<Rightarrow> 'a list \<Rightarrow> py_error + 'b list" where
  "mapE f [] = Inr []"
| "mapE f (x # xs) = bindE (f x) (\<lambda>y. bindE (mapE f xs) (\<lambda>ys. Inr (y # ys)))"

text \<open>A list comprehension whose condition can raise.\<close>

fun filterE :: "('a \<Rightarrow> py_error + bool) \<Rightarrow> 'a list \<Rightarrow> py_error + 'a list" where
  "filterE p [] = Inr []"
| "filterE p (x # xs) =
     bindE (p x) (\<lambda>b. bindE (filterE p xs) (\<lambda>ys. Inr (if b then x # ys else ys)))"

text \<open>\<open>xs[i]\<close> for a non-negative index.\<close>

definition item :: "'a list \<Rightarrow> nat \<Rightarrow> py_error + 'a" where
  "item xs i = (if i < length xs then Inr (xs ! i) else Inl IndexError)"

text \<open>\<open>xs[i:j]\<close> for non-negative bounds; empty when \<open>j \<le> i\<close>.\<close>

definition slice :: "nat \<Rightarrow> nat \<Rightarrow> 'a list \<Rightarrow> 'a list" where
  "slice i j xs = take (j - i) (drop i xs)"

text \<open>\<open>bs.index(True)\<close>: the first position holding \<open>True\<close>, ValueError when there is none.\<close>

fun index_true :: "bool list \<Rightarrow> py_error + nat" where
  "index_true [] = Inl ValueError"
| "index_true (b # bs) = (if b then Inr 0 else bindE (index_true bs) (\<lambda>i. Inr (Suc i)))"

text \<open>\<open>x / y\<close> on floats.\<close>

definition py_div :: "real \<Rightarrow> real \<Rightarrow> py_error + real" where
  "py_div a b = (if b = 0 then Inl ZeroDivisionError else Inr (a / b))"

definition or_default :: "'a option \<Rightarrow> 'a \<Rightarrow> 'a" where
  "or_default x d = (case x of None \<Rightarrow> d | Some v \<Rightarrow> v)"

subsection \<open>Strings\<close>

text \<open>\<open>s.split(c)\<close> for a one-character separator: always at least one piece.\<close>

fun split_sep :: "char \<Rightarrow> string \<Rightarrow> string list" where
  "split_sep c [] = [[]]"
| "split_sep c (x # xs) =
     (if x = c then [] # split_sep c xs
      else (case split_sep c xs of [] \<Rightarrow> [[x]] | w # ws \<Rightarrow> (x # w) # ws))"

definition is_space :: "char \<Rightarrow> bool" where
  "is_space c = (c \<in> set [CHR '' '', CHR 0x09, CHR 0x0A, CHR 0x0B, CHR 0x0C, CHR 0x0D])"

definition strip :: "string \<Rightarrow> string" where
  "strip s = rev (dropWhile is_space (rev (dropWhile is_space s)))"

text \<open>\<open>p in s\<close> on strings.\<close>

fun sub_in :: "string \<Rightarrow> string \<Rightarrow> bool" where
  "sub_in p [] = (p = [])"
| "sub_in p (x # xs) = (take (length p) (x # xs) = p \<or> sub_in p xs)"

definition is_digit :: "char \<Rightarrow> bool" where
  "is_digit c = (c \<in> set ''0123456789'')"

text \<open>The value of a digit: its position in the list of digits.\<close>

definition digit_val :: "char \<Rightarrow> nat" where
  "digit_val c = length (takeWhile (\<lambda>d. d \<noteq> c) ''0123456789'')"

definition nat_of_digits :: "string \<Rightarrow> nat" where
  "nat_of_digits s = foldl (\<lambda>a c. 10 * a + digit_val c) 0 s"

text \<open>An optional sign in front of a numeral: whether it is negative, and the rest.\<close>

definition sign_split :: "string \<Rightarrow> bool \<times> string" where
  "sign_split s =
     (case s of [] \<Rightarrow> (False, [])
      | c # r \<Rightarrow> if c = CHR ''-'' then (True, r) else if c = CHR ''+'' then (False, r)
                 else (False, s))"

text \<open>\<open>int(s)\<close> on a decimal literal: surrounding whitespace, a sign, digits.\<close>

definition py_int :: "string \<Rightarrow> py_error + int" where
  "py_int s =
     (let (neg, body) = sign_split (strip s) in
      if body \<noteq> [] \<and> list_all is_digit body
      then Inr (if neg then - int (nat_of_digits body) else int (nat_of_digits body))
      else Inl ValueError)"

definition lower :: "char \<Rightarrow> char" where
  "lower c = (let n = (of_char c :: nat) in if 65 \<le> n \<and> n \<le> 90 then char_of (n + 32) else c)"

text \<open>
  \<open>float(s)\<close>: surrounding whitespace, a sign, digits with an optional point (a digit on
  at least one side of it), an optional exponent. The value is the exact decimal.
\<close>

definition py_float :: "string \<Rightarrow> py_error + real" where
  "py_float s =
     (let (neg, body) = sign_split (strip s);
          mant = takeWhile (\<lambda>c. c \<noteq> CHR ''e'' \<and> c \<noteq> CHR ''E'') body;
          expo = drop (length mant) body;
          ip = takeWhile is_digit mant;
          rest = drop (length ip) mant;
          fp = drop 1 rest;
          mant_ok = ((rest = [] \<or> take 1 rest = ''.'' \<and> list_all is_digit fp)
                     \<and> (ip \<noteq> [] \<or> fp \<noteq> []));
          (eneg, ed) = sign_split (drop 1 expo);
          exp_ok = (expo = [] \<or> ed \<noteq> [] \<and> list_all is_digit ed);
          m = real (nat_of_digits (ip @ fp)) / 10 ^ length fp;
          v = (if expo = [] then m
               else if eneg then m / 10 ^ nat_of_digits ed else m * 10 ^ nat_of_digits ed)
      in if mant_ok \<and> exp_ok then Inr (if neg then - v else v)
         else if map lower body \<in> set [''inf'', ''infinity'', ''nan''] then Inl NonFinite
         else Inl ValueError)"

subsection \<open>datetime\<close>

text \<open>
  A naive \<open>datetime\<close>. Python only ever holds valid ones (the constructor checks the
  ranges), so the parameters of this type are understood to be valid.
\<close>

record datetime =
  year :: int
  month :: int
  day :: int
  hour :: int
  minute :: int
  second :: int
  microsecond :: int

definition is_leap :: "int \<Rightarrow> bool" where
  "is_leap y = (y mod 4 = 0 \<and> (y mod 100 \<noteq> 0 \<or> y mod 400 = 0))"

definition days_in_month :: "int \<Rightarrow> int \<Rightarrow> int" where
  "days_in_month y m =
     (if m = 2 \<and> is_leap y then 29
      else [31, 28, 31, 30, 31, 30, 31, 31, 30, 31, 30, 31] ! nat (m - 1))"

definition days_before_year :: "int \<Rightarrow> int" where
  "days_before_year y = (let p = y - 1 in p * 365 + p div 4 - p div 100 + p div 400)"

definition days_before_month :: "int \<Rightarrow> int \<Rightarrow> int" where
  "days_before_month y m =
     [0, 31, 59, 90, 120, 151, 181, 212, 243, 273, 304, 334] ! nat (m - 1)
     + (if 2 < m \<and> is_leap y then 1 else 0)"

definition toordinal :: "datetime \<Rightarrow> int" where
  "toordinal d = days_before_year (year d) + days_before_month (year d) (month d) + day d"

text \<open>The instant of a datetime in microseconds; a \<open>timedelta\<close> is a number of them.\<close>

definition dt_micros :: "datetime \<Rightarrow> int" where
  "dt_micros d =
     (((toordinal d * 24 + hour d) * 60 + minute d) * 60 + second d) * 1000000
     + microsecond d"

definition dt_sub :: "datetime \<Rightarrow> datetime \<Rightarrow> int" where
  "dt_sub a b = dt_micros a - dt_micros b"

definition timedelta_days :: "int \<Rightarrow> int" where
  "timedelta_days n = n * 86400000000"

text \<open>Comparison is that of the field tuples, as in the library.\<close>

fun lex_lt :: "int list \<Rightarrow> int list \<Rightarrow> bool" where
  "lex_lt (x # xs) (y # ys) = (x < y \<or> x = y \<and> lex_lt xs ys)"
| "lex_lt _ _ = False"

definition dt_fields :: "datetime \<Rightarrow> int list" where
  "dt_fields d = [year d, month d, day d, hour d, minute d, second d, microsecond d]"

definition dt_lt :: "datetime \<Rightarrow> datetime \<Rightarrow> bool" where
  "dt_lt a b = lex_lt (dt_fields a) (dt_fields b)"

definition dt_gt :: "datetime \<Rightarrow> datetime \<Rightarrow> bool" where
  "dt_gt a b = dt_lt b a"

definition dt_ge :: "datetime \<Rightarrow> datetime \<Rightarrow> bool" where
  "dt_ge a b = (\<not> dt_lt a b)"

text \<open>\<open>datetime(y, m, d)\<close> with valid arguments.\<close>

definition ymd :: "int \<Rightarrow> int \<Rightarrow> int \<Rightarrow> datetime" where
  "ymd y m d = \<lparr>year = y, month = m, day = d, hour = 0, minute = 0, second = 0, microsecond = 0\<rparr>"

text \<open>\<open>max(ds)\<close>: the first greatest element, ValueError on the empty list.\<close>

definition py_max :: "datetime list \<Rightarrow> py_error + datetime" where
  "py_max ds =
     (case ds of [] \<Rightarrow> Inl ValueError
      | d # rest \<Rightarrow> Inr (foldl (\<lambda>m x. if dt_lt m x then x else m) d rest))"

text \<open>
  \<open>datetime(*args)\<close> on integers: three to seven of them (an eighth would be the time
  zone, which an integer is not), each a C int, each in its range.
\<close>

definition new_datetime :: "int list \<Rightarrow> py_error + datetime" where
  "new_datetime args =
     (if length args < 3 \<or> 8 < length args then Inl TypeError
      else if \<exists>a \<in> set (take 7 args). a < - 2147483648 \<or> 2147483647 < a
      then Inl OverflowError
      else let a = take 7 args @ replicate (7 - length args) 0;
               y = a ! 0; m = a ! 1; d = a ! 2; h = a ! 3; mi = a ! 4; s = a ! 5; us = a ! 6
           in if \<not> (1 \<le> y \<and> y \<le> 9999 \<and> 1 \<le> m \<and> m \<le> 12 \<and> 1 \<le> d \<and> d \<le> days_in_month y m
                    \<and> 0 \<le> h \<and> h \<le> 23 \<and> 0 \<le> mi \<and> mi \<le> 59 \<and> 0 \<le> s \<and> s \<le> 59
                    \<and> 0 \<le> us \<and> us \<le> 999999)
              then Inl ValueError
              else if length args = 8 then Inl TypeError
              else Inr \<lparr>year = y, month = m, day = d, hour = h, minute = mi, second = s,
                        microsecond = us\<rparr>)"

definition digit_char :: "nat \<Rightarrow> char" where
  "digit_char n = ''0123456789'' ! n"

text \<open>A number in exactly \<open>w\<close> decimal digits, zero padded.\<close>

definition zpad :: "nat \<Rightarrow> int \<Rightarrow> string" where
  "zpad w n = map (\<lambda>k. digit_char (nat n div 10 ^ k mod 10)) (rev [0..<w])"

text \<open>\<open>d.strftime("%Y-%m-%d")\<close>; Python 2 refuses years before 1900.\<close>

definition strftime :: "datetime \<Rightarrow> py_error + string" where
  "strftime d =
     (if year d < 1900 then Inl ValueError
      else Inr (zpad 4 (year d) @ ''-'' @ zpad 2 (month d) @ ''-'' @ zpad 2 (day d)))"

section \<open>Constants\<close>

definition HEADER :: string where
  "HEADER = ''Date,Open,High,Low,Close,Adj Close,Volume''"

definition DEFAULT_START_DATE :: datetime where
  "DEFAULT_START_DATE =
     \<lparr>year = 1990, month = 1, day = 1, hour = 0, minute = 0, second = 0, microsecond = 0\<rparr>"

definition DEFAULT_END_DATE :: datetime where
  "DEFAULT_END_DATE =
     \<lparr>year = 2021, month = 12, day = 31, hour = 0, minute = 0, second = 0, microsecond = 0\<rparr>"

section \<open>cumulate_returns\<close>

text \<open>The loop of \<open>cumulate_returns\<close>, started from the running value \<open>r0\<close>.\<close>

fun cumulate_from :: "real \<Rightarrow> real list \<Rightarrow> real list" where
  "cumulate_from r0 [] = []"
| "cumulate_from r0 (r1 # rs) =
     (let r0' = (1 + r0) * (1 + r1) - 1 in r0' # cumulate_from r0' rs)"

definition cumulate_returns :: "real list \<Rightarrow> real list" where
  "cumulate_returns returns = cumulate_from 0 returns"

section \<open>get_prices_open_close_adj_dates\<close>

text \<open>The condition of the first comprehension, given the formatted bad dates.\<close>

definition keep_line :: "string list \<Rightarrow> string \<Rightarrow> bool" where
  "keep_line bad_str d =
     (d \<noteq> [] \<and> \<not> sub_in ''null'' d \<and> hd (split_sep CHR '','' d) \<notin> set bad_str)"

text \<open>\<open>len(set(d[1:5])) > 1\<close>: the four price fields, compared as text.\<close>

definition distinct_ohlc :: "string list \<Rightarrow> bool" where
  "distinct_ohlc d = (1 < card (set (slice 1 5 d)))"

text \<open>\<open>float(d[1]) > 0\<close>.\<close>

definition positive_open :: "string list \<Rightarrow> py_error + bool" where
  "positive_open d = bindE (item d 1) (\<lambda>s. bindE (py_float s) (\<lambda>p. Inr (0 < p)))"

text \<open>\<open>float(d[k])\<close>.\<close>

definition field_float :: "nat \<Rightarrow> string list \<Rightarrow> py_error + real" where
  "field_float k d = bindE (item d k) py_float"

text \<open>\<open>datetime(*map(int, d[0].split('-')))\<close>.\<close>

definition row_datetime :: "string list \<Rightarrow> py_error + datetime" where
  "row_datetime d =
     bindE (item d 0) (\<lambda>s. bindE (mapE py_int (split_sep CHR ''-'' s)) new_datetime)"

text \<open>The header check and the three filters: the variable \<open>data\<close> after them.\<close>

definition filtered_data :: "string list \<Rightarrow> datetime list option \<Rightarrow> py_error + string list list" where
  "filtered_data original_data bad_data_dates =
     (case original_data of [] \<Rightarrow> Inl IndexError
      | h # rest \<Rightarrow>
          if strip h \<noteq> HEADER then Inl (AssertHeader h)
          else bindE (mapE strftime (or_default bad_data_dates [])) (\<lambda>bad_data_dates_str.
               let data = map (split_sep CHR '','') (filter (keep_line bad_data_dates_str) rest);
                   data = filter distinct_ohlc data
               in filterE positive_open data))"

text \<open>The four columns and the assertion on the adjusted closes.\<close>

definition price_columns ::
  "string list list \<Rightarrow> py_error + real list \<times> real list \<times> real list \<times> datetime list" where
  "price_columns data =
     bindE (mapE (field_float 1) data) (\<lambda>price_open.
     bindE (mapE (field_float 4) data) (\<lambda>price_close.
     bindE (mapE (field_float 5) data) (\<lambda>price_close_adj.
     if \<not> list_all (\<lambda>p. 0 < p) price_close_adj then Inl AssertBadData
     else bindE (mapE row_datetime data) (\<lambda>dates_datetime.
          Inr (price_open, price_close, price_close_adj, dates_datetime)))))"

text \<open>The two indices \<open>d0\<close> and \<open>d1\<close>.\<close>

definition date_window ::
  "real list \<Rightarrow> real list \<Rightarrow> datetime list \<Rightarrow> datetime option \<Rightarrow> datetime option
   \<Rightarrow> py_error + nat \<times> nat" where
  "date_window price_open price_close dates_datetime start_date end_date =
     bindE (index_true (map (\<lambda>(p_open, p_close). p_open \<noteq> p_close)
                            (zip price_open price_close))) (\<lambda>i_open.
     bindE (index_true (map (\<lambda>d. dt_ge d (or_default start_date DEFAULT_START_DATE))
                            dates_datetime)) (\<lambda>i_start.
     let d0 = max i_open i_start in
     bindE (py_max dates_datetime) (\<lambda>latest.
     bindE (if dt_lt (or_default end_date DEFAULT_END_DATE) latest
            then index_true (map (\<lambda>d. dt_gt d (or_default end_date DEFAULT_END_DATE))
                                 dates_datetime)
            else Inr (length dates_datetime)) (\<lambda>d1.
     Inr (d0, d1)))))"

definition get_prices_open_close_adj_dates ::
  "string list \<Rightarrow> datetime option \<Rightarrow> datetime option \<Rightarrow> datetime list option
   \<Rightarrow> py_error + real list \<times> real list \<times> real list \<times> datetime list" where
  "get_prices_open_close_adj_dates original_data start_date end_date bad_data_dates =
     bindE (filtered_data original_data bad_data_dates) (\<lambda>data.
     bindE (price_columns data) (\<lambda>(price_open, price_close, price_close_adj, dates_datetime).
     bindE (date_window price_open price_close dates_datetime start_date end_date) (\<lambda>(d0, d1).
     if 1 < d0 \<or> d1 < length dates_datetime
     then Inr (slice d0 d1 price_open, slice d0 d1 price_close,
               slice d0 d1 price_close_adj, slice d0 d1 dates_datetime)
     else Inr (price_open, price_close, price_close_adj, dates_datetime))))"

text \<open>
  The function returns columns, not rows. \<open>retained_lines\<close> names the lines of the input
  that stand behind the returned columns: the same filters, on the lines instead of on
  their fields (\<open>surviving_lines\<close>), and the same slice.
\<close>

definition surviving_lines :: "string list \<Rightarrow> string list \<Rightarrow> py_error + string list" where
  "surviving_lines bad_data_dates_str rest =
     filterE (\<lambda>l. positive_open (split_sep CHR '','' l))
       (filter (\<lambda>l. distinct_ohlc (split_sep CHR '','' l))
          (filter (keep_line bad_data_dates_str) rest))"

definition retained_lines ::
  "string list \<Rightarrow> datetime option \<Rightarrow> datetime option \<Rightarrow> datetime list option
   \<Rightarrow> py_error + string list" where
  "retained_lines original_data start_date end_date bad_data_dates =
     (case original_data of [] \<Rightarrow> Inl IndexError
      | h # rest \<Rightarrow>
          if strip h \<noteq> HEADER then Inl (AssertHeader h)
          else bindE (mapE strftime (or_default bad_data_dates [])) (\<lambda>bad_data_dates_str.
               bindE (surviving_lines bad_data_dates_str rest) (\<lambda>ls.
               bindE (price_columns (map (split_sep CHR '','') ls))
                 (\<lambda>(price_open, price_close, price_close_adj, dates_datetime).
               bindE (date_window price_open price_close dates_datetime start_date end_date)
                 (\<lambda>(d0, d1).
               Inr (if 1 < d0 \<or> d1 < length dates_datetime then slice d0 d1 ls else ls))))))"

section \<open>compute_returns_overnight_intraday\<close>

definition compute_returns_overnight_intraday ::
  "real list \<Rightarrow> real list \<Rightarrow> real list \<Rightarrow> datetime list \<Rightarrow> py_error + real list \<times> real list" where
  "compute_returns_overnight_intraday price_open price_close price_close_adj dates_datetime =
     (if \<not> (length price_open = length price_close
             \<and> length price_close = length price_close_adj
             \<and> length price_close_adj = length dates_datetime) then Inl AssertLengths
      else let n_days = length dates_datetime in
      if n_days = 0 then Inr ([], [])
      else
        bindE (mapE (\<lambda>i. bindE (py_div (price_close ! i) (price_open ! i)) (\<lambda>q. Inr (q - 1)))
                 [0..<n_days]) (\<lambda>returns_intraday.
        bindE (mapE (\<lambda>i. bindE (py_div (price_close_adj ! i) (price_close_adj ! (i - 1)))
                            (\<lambda>q. Inr (q - 1)))
                 [1..<n_days]) (\<lambda>ctc_tail.
        let returns_close_to_close = 0 # ctc_tail in
        bindE (mapE (\<lambda>i. if dt_sub (dates_datetime ! i) (dates_datetime ! (i - 1))
                             < timedelta_days 14
                          then bindE (py_div (1 + returns_close_to_close ! i)
                                             (1 + returns_intraday ! i)) (\<lambda>q. Inr (q - 1))
                          else Inr 0)
                 [1..<n_days]) (\<lambda>overnight_tail.
        Inr (0 # overnight_tail, returns_intraday)))))"

section \<open>PlotData and get_plot_data\<close>

record plot_data =
  pd_dates_datetime :: "datetime list"
  pd_returns_overnight :: "real list"
  pd_returns_intraday :: "real list"

text \<open>\<open>PlotData.__init__\<close> with its two assertions.\<close>

definition PlotData :: "datetime list \<Rightarrow> real list \<Rightarrow> real list \<Rightarrow> py_error + plot_data" where
  "PlotData dates_datetime returns_overnight returns_intraday =
     (if \<not> (length dates_datetime = length returns_overnight
             \<and> length returns_overnight = length returns_intraday) then Inl AssertLengths
      else bindE (item returns_overnight 0) (\<lambda>r.
           if r \<noteq> 0 then Inl AssertOvernight0
           else Inr \<lparr>pd_dates_datetime = dates_datetime,
                     pd_returns_overnight = returns_overnight,
                     pd_returns_intraday = returns_intraday\<rparr>))"

text \<open>The entry of \<open>symbol_details_dict()\<close> for the symbol, as far as it is read here.\<close>

record symbol_details =
  sd_start_date :: "datetime option"
  sd_end_date :: "datetime option"
  sd_bad_data_dates :: "datetime list option"

text \<open>
  \<open>get_plot_data\<close>, with the lines read from the symbol's file and the symbol's details
  passed in. \<open>None\<close> is the result for an empty series.
\<close>

definition get_plot_data ::
  "string list \<Rightarrow> symbol_details \<Rightarrow> datetime option \<Rightarrow> py_error + plot_data option" where
  "get_plot_data data s start_date =
     bindE (get_prices_open_close_adj_dates data
              (case start_date of Some d \<Rightarrow> Some d | None \<Rightarrow> sd_start_date s)
              (sd_end_date s) (sd_bad_data_dates s))
       (\<lambda>(price_open, price_close, price_close_adj, dates_datetime).
     bindE (compute_returns_overnight_intraday price_open price_close price_close_adj
              dates_datetime) (\<lambda>(returns_overnight, returns_intraday).
     if dates_datetime \<noteq> []
     then bindE (PlotData dates_datetime returns_overnight returns_intraday) (\<lambda>p. Inr (Some p))
     else Inr None))"

section \<open>Example inputs\<close>

definition csv_before_start :: "string list" where
  "csv_before_start =
     [''Date,Open,High,Low,Close,Adj Close,Volume'',
      ''1989-12-29,10,12,9,11,11,0'',
      ''1990-01-02,11,12,10,12,12,0'']"

definition csv_late_open :: "string list" where
  "csv_late_open =
     [''Date,Open,High,Low,Close,Adj Close,Volume'',
      ''1989-12-28,10,12,9,11,11,0'',
      ''1989-12-29,10,12,9,11,11,0'',
      ''1990-01-02,10,12,9,10,10,0'',
      ''1990-01-03,10,12,9,10,10,0'',
      ''1990-01-04,10,12,9,11,11,0'']"

definition csv_window :: "string list" where
  "csv_window =
     [''Date,Open,High,Low,Close,Adj Close,Volume'',
      ''1989-12-28,10,12,9,11,11,0'',
      ''1989-12-29,10,12,9,11,11,0'',
      ''1990-01-02,10,12,9,11,11,0'',
      ''1990-01-03,10,12,9,10.5,10.5,0'']"

definition csv_textual :: "string list" where
  "csv_textual =
     [''Date,Open,High,Low,Close,Adj Close,Volume'',
      ''2020-01-02,10,12,9,11,11,0'',
      ''2020-01-03,10,10.0,10,10,10,0'']"

definition csv_flat :: "string list" where
  "csv_flat =
     [''Date,Open,High,Low,Close,Adj Close,Volume'',
      ''2020-01-02,10,10,10,10,10,0'',
      ''2020-01-03,10,9,10,11,11,0'',
      ''2020-01-06,11,11,12,12,12,0'']"

definition csv_bad_adj :: "string list" where
  "csv_bad_adj =
     [''Date,Open,High,Low,Close,Adj Close,Volume'',
      ''2020-01-02,10,12,9,11,-1,0'']"

definition csv_one_row :: "string list" where
  "csv_one_row =
     [''Date,Open,High,Low,Close,Adj Close,Volume'',
      ''2020-01-02,10,12,9,11,11,0'']"

definition csv_after_end :: "string list" where
  "csv_after_end =
     [''Date,Open,High,Low,Close,Adj Close,Volume'',
      ''2022-01-03,10,12,9,11,11,0'']"

definition csv_zero_close :: "string list" where
  "csv_zero_close =
     [''Date,Open,High,Low,Close,Adj Close,Volume'',
      ''2020-01-02,10,12,9,11,11,0'',
      ''2020-01-03,10,12,0,0,5,0'']"

definition csv_halted :: "string list" where
  "csv_halted =
     [''Date,Open,High,Low,Close,Adj Close,Volume'',
      ''2020-01-02,10,12,9,11,11,0'',
      ''2020-01-03,11,12,0,0,11,0'']"

definition csv_two_days :: "string list" where
  "csv_two_days =
     [''Date,Open,High,Low,Close,Adj Close,Volume'',
      ''2020-01-02,10,12,9,11,11,0'',
      ''2020-01-03,11,13,10,12,12,0'']"

section \<open>Properties of cumulate_returns\<close>

lemma length_cumulate_from: "length (cumulate_from r0 rs) = length rs"
  by (induction rs arbitrary: r0) (simp_all add: Let_def)

lemma cumulate_from_nth:
  "i < length rs \<Longrightarrow>
   cumulate_from r0 rs ! i = (1 + r0) * (\<Prod>k\<le>i. (1 + rs ! k)) - 1"
proof (induction rs arbitrary: r0 i)
  case Nil
  then show ?case by simp
next
  case (Cons r1 rs)
  show ?case
  proof (cases i)
    case 0
    then show ?thesis by (simp add: Let_def)
  next
    case (Suc j)
    with Cons.prems have j: "j < length rs" by simp
    have "(\<Prod>k\<le>Suc j. (1 + (r1 # rs) ! k)) = (1 + r1) * (\<Prod>k\<le>j. (1 + rs ! k))"
      by (simp add: prod.atMost_Suc_shift del: prod.atMost_Suc)
    with Suc Cons.IH [OF j] show ?thesis
      by (simp add: Let_def algebra_simps)
  qed
qed

lemma cumulate_from_zeros: "cumulate_from 0 (replicate n 0) = replicate n 0"
  by (induction n) (simp_all add: Let_def)

lemma cumulate_from_lower:
  "- 1 \<le> r0 \<Longrightarrow> \<forall>x \<in> set rs. - 1 \<le> x \<Longrightarrow> \<forall>y \<in> set (cumulate_from r0 rs). - 1 \<le> y"
proof (induction rs arbitrary: r0)
  case Nil
  then show ?case by simp
next
  case (Cons r1 rs)
  have "0 \<le> (1 + r0) * (1 + r1)"
    using Cons.prems by (intro mult_nonneg_nonneg) simp_all
  then have step: "- 1 \<le> (1 + r0) * (1 + r1) - 1" by simp
  from Cons.IH [OF step] Cons.prems step show ?case
    by (simp add: Let_def)
qed

text \<open>
  C4. For every return sequence \<open>r\<close> the output of \<open>cumulate_returns\<close> has the length of
  \<open>r\<close>, its element \<open>i\<close> is the product of \<open>1 + r[k]\<close> for \<open>k = 0..i\<close>, minus 1, and an
  all-zero sequence is cumulated to an all-zero sequence of the same length.
\<close>

theorem cumulate_returns_compounding:
  "length (cumulate_returns r) = length r
   \<and> (\<forall>i < length r. cumulate_returns r ! i = (\<Prod>k\<le>i. (1 + r ! k)) - 1)
   \<and> cumulate_returns (replicate n 0) = replicate n 0"
  by (simp add: cumulate_returns_def length_cumulate_from cumulate_from_nth cumulate_from_zeros)

theorem cumulate_returns_compounding_witness:
  "(1::nat) < length [1/10, 1/5 :: real]
   \<and> cumulate_returns [1/10, 1/5] ! 1 = (\<Prod>k\<le>1. (1 + [1/10, 1/5 :: real] ! k)) - 1"
  using cumulate_returns_compounding [of "[1/10, 1/5]" 0] by simp

text \<open>
  C10. When every return is at least \<open>-1\<close>, every cumulated value is at least \<open>-1\<close>.
\<close>

theorem cumulate_returns_lower_bound:
  "\<forall>x \<in> set r. - 1 \<le> x \<Longrightarrow> \<forall>y \<in> set (cumulate_returns r). - 1 \<le> y"
  unfolding cumulate_returns_def by (rule cumulate_from_lower) simp_all

theorem cumulate_returns_lower_bound_witness:
  "- 1 \<le> cumulate_returns [- 1, 1 / 2] ! 0 \<and> - 1 \<le> cumulate_returns [- 1, 1 / 2] ! 1"
proof -
  have h: "\<forall>x \<in> set [- 1, 1 / 2 :: real]. - 1 \<le> x" by simp
  have l: "length (cumulate_returns [- 1, 1 / 2]) = 2"
    unfolding cumulate_returns_def length_cumulate_from by simp
  from cumulate_returns_lower_bound [OF h]
  have b: "\<forall>y \<in> set (cumulate_returns [- 1, 1 / 2]). - 1 \<le> y" .
  from l have "cumulate_returns [- 1, 1 / 2] ! 0 \<in> set (cumulate_returns [- 1, 1 / 2])"
    and "cumulate_returns [- 1, 1 / 2] ! 1 \<in> set (cumulate_returns [- 1, 1 / 2])"
    by (simp_all del: cumulate_from.simps)
  with b show ?thesis by blast
qed

section \<open>Exceptions as values: basic facts\<close>

lemma bindE_Inr_iff: "bindE m f = Inr y \<longleftrightarrow> (\<exists>x. m = Inr x \<and> f x = Inr y)"
  by (cases m) (simp_all add: bindE_def)

lemma bindE_Inl_iff: "bindE m f = Inl e \<longleftrightarrow> m = Inl e \<or> (\<exists>x. m = Inr x \<and> f x = Inl e)"
  by (cases m) (simp_all add: bindE_def)

lemma bindE_Inr [simp]: "bindE (Inr x) f = f x"
  by (simp add: bindE_def)

lemma bindE_Inl [simp]: "bindE (Inl e) f = Inl e"
  by (simp add: bindE_def)

lemma mapE_Inr_iff: "mapE f xs = Inr ys \<longleftrightarrow> list_all2 (\<lambda>x y. f x = Inr y) xs ys"
proof (induction xs arbitrary: ys)
  case Nil
  then show ?case by auto
next
  case (Cons x xs)
  show ?case
    by (cases ys) (auto simp: bindE_Inr_iff Cons.IH)
qed

lemma mapE_Inl_D: "mapE f xs = Inl e \<Longrightarrow> \<exists>x \<in> set xs. f x = Inl e"
  by (induction xs) (auto simp: bindE_Inl_iff)

lemma mapE_total: "\<forall>x \<in> set xs. \<exists>y. f x = Inr y \<Longrightarrow> \<exists>ys. mapE f xs = Inr ys"
  by (induction xs) (auto simp: bindE_Inr_iff)

lemma mapE_length: "mapE f xs = Inr ys \<Longrightarrow> length ys = length xs"
  by (simp add: mapE_Inr_iff list_all2_lengthD)

lemma mapE_upt_iff:
  "mapE f [a..<b] = Inr ys \<longleftrightarrow> length ys = b - a \<and> (\<forall>i < b - a. f (a + i) = Inr (ys ! i))"
  by (auto simp: mapE_Inr_iff list_all2_conv_all_nth)

lemma mapE_map: "mapE f (map g xs) = mapE (\<lambda>x. f (g x)) xs"
  by (induction xs) simp_all

lemma mapE_slice: "mapE f xs = Inr ys \<Longrightarrow> mapE f (slice i j xs) = Inr (slice i j ys)"
  by (simp add: mapE_Inr_iff slice_def list_all2_takeI list_all2_dropI)

lemma filterE_Inr_iff:
  "filterE p xs = Inr ys \<longleftrightarrow>
   (\<forall>x \<in> set xs. \<exists>b. p x = Inr b) \<and> ys = filter (\<lambda>x. p x = Inr True) xs"
proof (induction xs arbitrary: ys)
  case Nil
  then show ?case by auto
next
  case (Cons x xs)
  show ?case
  proof (cases "p x")
    case (Inl e)
    then show ?thesis by simp
  next
    case (Inr b)
    show ?thesis
    proof (cases "filterE p xs")
      case (Inl e)
      with Cons.IH [of "filter (\<lambda>x. p x = Inr True) xs"]
      have "\<not> (\<forall>x \<in> set xs. \<exists>b. p x = Inr b)" by simp
      with Inl Inr show ?thesis by simp
    next
      case r: (Inr zs)
      with Cons.IH [of zs] have all: "\<forall>x \<in> set xs. \<exists>b. p x = Inr b"
        and zs: "zs = filter (\<lambda>x. p x = Inr True) xs" by simp_all
      from Inr r all zs show ?thesis by (cases b) auto
    qed
  qed
qed

lemma filterE_Inl_D: "filterE p xs = Inl e \<Longrightarrow> \<exists>x \<in> set xs. p x = Inl e"
  by (induction xs) (auto simp: bindE_Inl_iff)

lemma filterE_map: "filterE p (map g xs) = map_sum id (map g) (filterE (\<lambda>x. p (g x)) xs)"
proof (induction xs)
  case Nil
  then show ?case by simp
next
  case (Cons x xs)
  show ?case
    by (cases "p (g x)"; cases "filterE (\<lambda>x. p (g x)) xs") (simp_all add: Cons.IH)
qed

lemma index_true_Inr_iff:
  "index_true bs = Inr i \<longleftrightarrow> i < length bs \<and> bs ! i \<and> (\<forall>k < i. \<not> bs ! k)"
proof (induction bs arbitrary: i)
  case Nil
  then show ?case by simp
next
  case (Cons b bs)
  show ?case
  proof (cases i)
    case 0
    then show ?thesis by (simp add: bindE_Inr_iff)
  next
    case (Suc j)
    have "index_true (b # bs) = Inr (Suc j) \<longleftrightarrow> \<not> b \<and> index_true bs = Inr j"
      by (simp add: bindE_Inr_iff)
    also have "\<dots> \<longleftrightarrow> \<not> b \<and> j < length bs \<and> bs ! j \<and> (\<forall>k < j. \<not> bs ! k)"
      by (simp only: Cons.IH)
    also have "\<dots> \<longleftrightarrow> Suc j < length (b # bs) \<and> (b # bs) ! Suc j \<and> (\<forall>k < Suc j. \<not> (b # bs) ! k)"
      by (simp add: All_less_Suc2 conj_ac)
    finally show ?thesis using Suc by simp
  qed
qed

lemma index_true_Inl: "index_true bs = Inl e \<Longrightarrow> e = ValueError"
  by (induction bs) (auto simp: bindE_Inl_iff split: if_splits)

lemma index_true_total: "True \<in> set bs \<Longrightarrow> \<exists>i. index_true bs = Inr i"
  by (induction bs) (auto simp: bindE_Inr_iff)

section \<open>Properties of compute_returns_overnight_intraday\<close>

lemma ratio_minus1_Inr_iff:
  "bindE (py_div a b) (\<lambda>q. Inr (q - 1)) = Inr r \<longleftrightarrow> b \<noteq> 0 \<and> r = a / b - 1"
  by (auto simp: py_div_def)

lemma compute_returns_D:
  assumes len: "length price_open = length dates_datetime"
    "length price_close = length dates_datetime"
    "length price_close_adj = length dates_datetime"
    and n: "0 < length dates_datetime"
    and res: "compute_returns_overnight_intraday price_open price_close price_close_adj
                dates_datetime = Inr (ov, intr)"
  shows "length intr = length dates_datetime"
    and "length ov = length dates_datetime"
    and "ov ! 0 = 0"
    and "\<forall>i < length dates_datetime.
           price_open ! i \<noteq> 0 \<and> intr ! i = price_close ! i / price_open ! i - 1"
    and "\<forall>i. Suc i < length dates_datetime \<longrightarrow>
           price_close_adj ! i \<noteq> 0
           \<and> (if dt_sub (dates_datetime ! Suc i) (dates_datetime ! i) < timedelta_days 14
              then 1 + intr ! Suc i \<noteq> 0
                   \<and> ov ! Suc i
                     = (1 + (price_close_adj ! Suc i / price_close_adj ! i - 1))
                       / (1 + intr ! Suc i) - 1
              else ov ! Suc i = 0)"
proof -
  let ?n = "length dates_datetime"
  from res len n obtain ct ot where
    ri: "mapE (\<lambda>i. bindE (py_div (price_close ! i) (price_open ! i)) (\<lambda>q. Inr (q - 1)))
           [0..<?n] = Inr intr"
    and ct: "mapE (\<lambda>i. bindE (py_div (price_close_adj ! i) (price_close_adj ! (i - 1)))
                          (\<lambda>q. Inr (q - 1))) [1..<?n] = Inr ct"
    and ot: "mapE (\<lambda>i. if dt_sub (dates_datetime ! i) (dates_datetime ! (i - 1))
                           < timedelta_days 14
                        then bindE (py_div (1 + (0 # ct) ! i) (1 + intr ! i)) (\<lambda>q. Inr (q - 1))
                        else Inr 0) [1..<?n] = Inr ot"
    and ov: "ov = 0 # ot"
    by (auto simp: compute_returns_overnight_intraday_def Let_def bindE_Inr_iff)
  from ri show li: "length intr = ?n"
    by (simp add: mapE_upt_iff)
  from ot have lo: "length ot = ?n - 1"
    by (simp add: mapE_upt_iff)
  with ov n show "length ov = ?n" by simp
  from ov show "ov ! 0 = 0" by simp
  from ri show "\<forall>i < ?n. price_open ! i \<noteq> 0 \<and> intr ! i = price_close ! i / price_open ! i - 1"
    by (simp add: mapE_upt_iff ratio_minus1_Inr_iff)
  show "\<forall>i. Suc i < ?n \<longrightarrow>
           price_close_adj ! i \<noteq> 0
           \<and> (if dt_sub (dates_datetime ! Suc i) (dates_datetime ! i) < timedelta_days 14
              then 1 + intr ! Suc i \<noteq> 0
                   \<and> ov ! Suc i
                     = (1 + (price_close_adj ! Suc i / price_close_adj ! i - 1))
                       / (1 + intr ! Suc i) - 1
              else ov ! Suc i = 0)"
  proof (intro allI impI)
    fix i assume i: "Suc i < ?n"
    then have i': "i < ?n - 1" by simp
    from ct i' have c: "price_close_adj ! i \<noteq> 0"
      "ct ! i = price_close_adj ! Suc i / price_close_adj ! i - 1"
      by (simp_all add: mapE_upt_iff ratio_minus1_Inr_iff)
    from ot i' have o: "(if dt_sub (dates_datetime ! Suc i) (dates_datetime ! i)
                             < timedelta_days 14
                        then bindE (py_div (1 + ct ! i) (1 + intr ! Suc i)) (\<lambda>q. Inr (q - 1))
                        else Inr 0) = Inr (ot ! i)"
      by (simp add: mapE_upt_iff cong: if_cong)
    show "price_close_adj ! i \<noteq> 0
           \<and> (if dt_sub (dates_datetime ! Suc i) (dates_datetime ! i) < timedelta_days 14
              then 1 + intr ! Suc i \<noteq> 0
                   \<and> ov ! Suc i
                     = (1 + (price_close_adj ! Suc i / price_close_adj ! i - 1))
                       / (1 + intr ! Suc i) - 1
              else ov ! Suc i = 0)"
      using c o ov by (simp add: ratio_minus1_Inr_iff split: if_splits)
  qed
qed

lemma mapE_upt_total:
  "(\<And>i. a \<le> i \<Longrightarrow> i < b \<Longrightarrow> \<exists>y. f i = Inr y) \<Longrightarrow> \<exists>ys. mapE f [a..<b] = Inr ys"
  by (rule mapE_total) simp

lemma compute_returns_total:
  assumes len: "length price_open = length dates_datetime"
    "length price_close = length dates_datetime"
    "length price_close_adj = length dates_datetime"
    and po: "\<forall>i < length dates_datetime. price_open ! i \<noteq> 0"
    and pa: "\<forall>i. Suc i < length dates_datetime \<longrightarrow> price_close_adj ! i \<noteq> 0"
    and pc: "\<forall>i. Suc i < length dates_datetime
               \<and> dt_sub (dates_datetime ! Suc i) (dates_datetime ! i) < timedelta_days 14
               \<longrightarrow> 1 + (price_close ! Suc i / price_open ! Suc i - 1) \<noteq> 0"
  shows "\<exists>r. compute_returns_overnight_intraday price_open price_close price_close_adj
               dates_datetime = Inr r"
proof (cases "length dates_datetime = 0")
  case True
  with len show ?thesis
    by (simp add: compute_returns_overnight_intraday_def)
next
  case False
  let ?n = "length dates_datetime"
  have "\<exists>ri. mapE (\<lambda>i. bindE (py_div (price_close ! i) (price_open ! i)) (\<lambda>q. Inr (q - 1)))
           [0..<?n] = Inr ri"
    using po by (intro mapE_upt_total) (simp add: ratio_minus1_Inr_iff)
  then obtain ri where ri: "mapE (\<lambda>i. bindE (py_div (price_close ! i) (price_open ! i))
      (\<lambda>q. Inr (q - 1))) [0..<?n] = Inr ri" ..
  then have riv: "\<forall>i < ?n. ri ! i = price_close ! i / price_open ! i - 1"
    by (simp add: mapE_upt_iff ratio_minus1_Inr_iff)
  have "\<exists>ct. mapE (\<lambda>i. bindE (py_div (price_close_adj ! i) (price_close_adj ! (i - 1)))
                          (\<lambda>q. Inr (q - 1))) [1..<?n] = Inr ct"
  proof (intro mapE_upt_total)
    fix i :: nat assume "1 \<le> i" "i < ?n"
    then have "Suc (i - 1) < ?n" by simp
    with pa have "price_close_adj ! (i - 1) \<noteq> 0" by blast
    then show "\<exists>y. bindE (py_div (price_close_adj ! i) (price_close_adj ! (i - 1)))
                 (\<lambda>q. Inr (q - 1)) = Inr y"
      by (simp add: ratio_minus1_Inr_iff)
  qed
  then obtain ct where ct: "mapE (\<lambda>i. bindE (py_div (price_close_adj ! i)
      (price_close_adj ! (i - 1))) (\<lambda>q. Inr (q - 1))) [1..<?n] = Inr ct" ..
  have "\<exists>ot. mapE (\<lambda>i. if dt_sub (dates_datetime ! i) (dates_datetime ! (i - 1))
                           < timedelta_days 14
                        then bindE (py_div (1 + (0 # ct) ! i) (1 + ri ! i)) (\<lambda>q. Inr (q - 1))
                        else Inr 0) [1..<?n] = Inr ot"
  proof (intro mapE_upt_total)
    fix i :: nat assume i: "1 \<le> i" "i < ?n"
    then obtain j where j: "i = Suc j" by (cases i) simp_all
    show "\<exists>y. (if dt_sub (dates_datetime ! i) (dates_datetime ! (i - 1)) < timedelta_days 14
                then bindE (py_div (1 + (0 # ct) ! i) (1 + ri ! i)) (\<lambda>q. Inr (q - 1))
                else Inr 0) = Inr y"
    proof (cases "dt_sub (dates_datetime ! i) (dates_datetime ! (i - 1)) < timedelta_days 14")
      case True
      with pc i j have "1 + (price_close ! i / price_open ! i - 1) \<noteq> 0" by simp
      moreover from riv i have "ri ! i = price_close ! i / price_open ! i - 1" by simp
      ultimately have "1 + ri ! i \<noteq> 0" by simp
      with True show ?thesis by (simp add: ratio_minus1_Inr_iff)
    next
      case False
      then show ?thesis by simp
    qed
  qed
  then obtain ot where ot: "mapE (\<lambda>i. if dt_sub (dates_datetime ! i) (dates_datetime ! (i - 1))
                           < timedelta_days 14
                        then bindE (py_div (1 + (0 # ct) ! i) (1 + ri ! i)) (\<lambda>q. Inr (q - 1))
                        else Inr 0) [1..<?n] = Inr ot" ..
  from False len ri ct ot show ?thesis
    by (simp add: compute_returns_overnight_intraday_def Let_def)
qed

lemma compute_returns_returns_iff:
  assumes len: "length price_open = length dates_datetime"
    "length price_close = length dates_datetime"
    "length price_close_adj = length dates_datetime"
  shows "(\<exists>r. compute_returns_overnight_intraday price_open price_close price_close_adj
               dates_datetime = Inr r)
         \<longleftrightarrow> (\<forall>i < length dates_datetime. price_open ! i \<noteq> 0)
             \<and> (\<forall>i. Suc i < length dates_datetime \<longrightarrow> price_close_adj ! i \<noteq> 0)
             \<and> (\<forall>i. Suc i < length dates_datetime
                     \<and> dt_sub (dates_datetime ! Suc i) (dates_datetime ! i) < timedelta_days 14
                     \<longrightarrow> 1 + (price_close ! Suc i / price_open ! Suc i - 1) \<noteq> 0)"
    (is "?L \<longleftrightarrow> ?R")
proof
  assume ?L
  then obtain ov intr where
    res: "compute_returns_overnight_intraday price_open price_close price_close_adj
            dates_datetime = Inr (ov, intr)"
    by (metis surj_pair)
  show ?R
  proof (cases "length dates_datetime = 0")
    case True
    then show ?thesis by simp
  next
    case False
    then have n: "0 < length dates_datetime" by simp
    note D = compute_returns_D [OF len n res]
    have "\<forall>i. Suc i < length dates_datetime
             \<and> dt_sub (dates_datetime ! Suc i) (dates_datetime ! i) < timedelta_days 14
             \<longrightarrow> 1 + (price_close ! Suc i / price_open ! Suc i - 1) \<noteq> 0"
    proof (intro allI impI)
      fix i
      assume i: "Suc i < length dates_datetime
             \<and> dt_sub (dates_datetime ! Suc i) (dates_datetime ! i) < timedelta_days 14"
      with D(5) have "1 + intr ! Suc i \<noteq> 0" by simp
      moreover from D(4) i have "intr ! Suc i = price_close ! Suc i / price_open ! Suc i - 1"
        by blast
      ultimately show "1 + (price_close ! Suc i / price_open ! Suc i - 1) \<noteq> 0" by simp
    qed
    with D(4,5) show ?thesis by blast
  qed
next
  assume ?R
  then show ?L by (intro compute_returns_total len) blast+
qed

lemmas dt_eval = dt_sub_def dt_micros_def toordinal_def days_before_year_def
  days_before_month_def is_leap_def timedelta_days_def ymd_def

text \<open>
  C2 (as the code has it). The decomposition of a non-empty series returns exactly when
  no division is by zero: every open is nonzero, every adjusted close used as a divisor
  is nonzero, and \<open>1 + intraday[i]\<close> is nonzero wherever the two dates are less than 14
  days apart. Whenever it returns, \<open>overnight[0] = 0\<close> and, for every \<open>i \<ge> 1\<close>,
  \<open>overnight[i]\<close> is \<open>(1 + closeToClose[i]) / (1 + intraday[i]) - 1\<close> when the two dates are
  less than 14 days apart and \<open>0\<close> when they are 14 days or more apart, whatever the
  adjusted closes are.
\<close>

theorem overnight_gap_policy:
  assumes "length price_open = length dates_datetime"
    and "length price_close = length dates_datetime"
    and "length price_close_adj = length dates_datetime"
    and "0 < length dates_datetime"
  shows "(\<forall>ov intr.
            compute_returns_overnight_intraday price_open price_close price_close_adj
              dates_datetime = Inr (ov, intr) \<longrightarrow>
            ov ! 0 = 0
            \<and> (\<forall>i. 1 \<le> i \<and> i < length dates_datetime \<longrightarrow>
                  intr ! i = price_close ! i / price_open ! i - 1
                  \<and> (dt_sub (dates_datetime ! i) (dates_datetime ! (i - 1)) < timedelta_days 14
                      \<longrightarrow> ov ! i = (1 + (price_close_adj ! i / price_close_adj ! (i - 1) - 1))
                                    / (1 + intr ! i) - 1)
                  \<and> (timedelta_days 14 \<le> dt_sub (dates_datetime ! i) (dates_datetime ! (i - 1))
                      \<longrightarrow> ov ! i = 0)))
         \<and> ((\<exists>r. compute_returns_overnight_intraday price_open price_close
                    price_close_adj dates_datetime = Inr r)
            \<longleftrightarrow> (\<forall>i < length dates_datetime. price_open ! i \<noteq> 0)
                \<and> (\<forall>i. Suc i < length dates_datetime \<longrightarrow> price_close_adj ! i \<noteq> 0)
                \<and> (\<forall>i. Suc i < length dates_datetime
                        \<and> dt_sub (dates_datetime ! Suc i) (dates_datetime ! i)
                            < timedelta_days 14
                        \<longrightarrow> 1 + (price_close ! Suc i / price_open ! Suc i - 1) \<noteq> 0))"
proof (intro conjI allI impI)
  fix ov intr
  assume res: "compute_returns_overnight_intraday price_open price_close price_close_adj
                 dates_datetime = Inr (ov, intr)"
  note D = compute_returns_D [OF assms res]
  from D(3) show "ov ! 0 = 0" .
  fix i assume i: "1 \<le> i \<and> i < length dates_datetime"
  then obtain j where j: "i = Suc j" by (cases i) simp_all
  from D(4) i show "intr ! i = price_close ! i / price_open ! i - 1" by simp
  from D(5) i j have s: "if dt_sub (dates_datetime ! Suc j) (dates_datetime ! j) < timedelta_days 14
              then 1 + intr ! Suc j \<noteq> 0
                   \<and> ov ! Suc j
                     = (1 + (price_close_adj ! Suc j / price_close_adj ! j - 1))
                       / (1 + intr ! Suc j) - 1
              else ov ! Suc j = 0" by blast
  {
    assume "dt_sub (dates_datetime ! i) (dates_datetime ! (i - 1)) < timedelta_days 14"
    with s j show "ov ! i = (1 + (price_close_adj ! i / price_close_adj ! (i - 1) - 1))
                                    / (1 + intr ! i) - 1" by simp
  }
  {
    assume "timedelta_days 14 \<le> dt_sub (dates_datetime ! i) (dates_datetime ! (i - 1))"
    with s j show "ov ! i = 0" by simp
  }
next
  show "(\<exists>r. compute_returns_overnight_intraday price_open price_close
                    price_close_adj dates_datetime = Inr r)
            \<longleftrightarrow> (\<forall>i < length dates_datetime. price_open ! i \<noteq> 0)
                \<and> (\<forall>i. Suc i < length dates_datetime \<longrightarrow> price_close_adj ! i \<noteq> 0)
                \<and> (\<forall>i. Suc i < length dates_datetime
                        \<and> dt_sub (dates_datetime ! Suc i) (dates_datetime ! i)
                            < timedelta_days 14
                        \<longrightarrow> 1 + (price_close ! Suc i / price_open ! Suc i - 1) \<noteq> 0)"
    by (rule compute_returns_returns_iff [OF assms(1-3)])
qed

theorem overnight_gap_policy_witness:
  "\<exists>ov intr.
     compute_returns_overnight_intraday [10, 11, 12] [11, 12, 13] [22, 23, 30]
       [ymd 2020 1 2, ymd 2020 1 3, ymd 2020 2 3] = Inr (ov, intr)
     \<and> ov ! 0 = 0 \<and> intr ! 1 = 1 / 11 \<and> ov ! 1 = - (1 / 24) \<and> ov ! 2 = 0"
proof -
  let ?po = "[10, 11, 12] :: real list" and ?pc = "[11, 12, 13] :: real list"
  let ?pa = "[22, 23, 30] :: real list"
  let ?ds = "[ymd 2020 1 2, ymd 2020 1 3, ymd 2020 2 3]"
  have gap1: "dt_sub (ymd 2020 1 3) (ymd 2020 1 2) < timedelta_days 14"
    by (simp add: dt_eval)
  have gap2: "timedelta_days 14 \<le> dt_sub (ymd 2020 2 3) (ymd 2020 1 3)"
    by (simp add: dt_eval)
  have T: "(\<forall>ov intr.
            compute_returns_overnight_intraday ?po ?pc ?pa ?ds = Inr (ov, intr) \<longrightarrow>
            ov ! 0 = 0
            \<and> (\<forall>i. 1 \<le> i \<and> i < length ?ds \<longrightarrow>
                  intr ! i = ?pc ! i / ?po ! i - 1
                  \<and> (dt_sub (?ds ! i) (?ds ! (i - 1)) < timedelta_days 14
                      \<longrightarrow> ov ! i = (1 + (?pa ! i / ?pa ! (i - 1) - 1))
                                    / (1 + intr ! i) - 1)
                  \<and> (timedelta_days 14 \<le> dt_sub (?ds ! i) (?ds ! (i - 1))
                      \<longrightarrow> ov ! i = 0)))
         \<and> ((\<exists>r. compute_returns_overnight_intraday ?po ?pc ?pa ?ds = Inr r)
            \<longleftrightarrow> (\<forall>i < length ?ds. ?po ! i \<noteq> 0)
                \<and> (\<forall>i. Suc i < length ?ds \<longrightarrow> ?pa ! i \<noteq> 0)
                \<and> (\<forall>i. Suc i < length ?ds
                        \<and> dt_sub (?ds ! Suc i) (?ds ! i) < timedelta_days 14
                        \<longrightarrow> 1 + (?pc ! Suc i / ?po ! Suc i - 1) \<noteq> 0))"
    by (rule overnight_gap_policy) simp_all
  have safe: "(\<forall>i < length ?ds. ?po ! i \<noteq> 0)
             \<and> (\<forall>i. Suc i < length ?ds \<longrightarrow> ?pa ! i \<noteq> 0)
             \<and> (\<forall>i. Suc i < length ?ds
                     \<and> dt_sub (?ds ! Suc i) (?ds ! i) < timedelta_days 14
                     \<longrightarrow> 1 + (?pc ! Suc i / ?po ! Suc i - 1) \<noteq> 0)"
    by (auto simp: less_Suc_eq numeral_3_eq_3)
  with T obtain ov intr where
    res: "compute_returns_overnight_intraday ?po ?pc ?pa ?ds = Inr (ov, intr)"
    by (metis surj_pair)
  with T have P: "ov ! 0 = 0
            \<and> (\<forall>i. 1 \<le> i \<and> i < length ?ds \<longrightarrow>
                  intr ! i = ?pc ! i / ?po ! i - 1
                  \<and> (dt_sub (?ds ! i) (?ds ! (i - 1)) < timedelta_days 14
                      \<longrightarrow> ov ! i = (1 + (?pa ! i / ?pa ! (i - 1) - 1))
                                    / (1 + intr ! i) - 1)
                  \<and> (timedelta_days 14 \<le> dt_sub (?ds ! i) (?ds ! (i - 1))
                      \<longrightarrow> ov ! i = 0))"
    by blast
  from P [THEN conjunct2, THEN spec, of 1]
  have i1: "intr ! 1 = 1 / 11" by simp
  from P [THEN conjunct2, THEN spec, of 1] gap1
  have e1: "ov ! 1 = (1 + (23 / 22 - 1)) / (1 + intr ! 1) - 1" by simp
  have o1: "ov ! 1 = - (1 / 24)" unfolding e1 i1 by simp
  from P [THEN conjunct2, THEN spec, of 2] gap2
  have o2: "ov ! 2 = 0" by simp
  from res P i1 o1 o2 show ?thesis by blast
qed

text \<open>
  C2 as stated fails: the claim is for every non-empty cleaned series, and on this one,
  returned by the cleaning, the decomposition raises ZeroDivisionError and sets nothing,
  not even \<open>overnight[0]\<close>.
\<close>

theorem decomposition_sets_nothing:
  "get_prices_open_close_adj_dates csv_halted None None None
     = Inr ([10, 11], [11, 0], [11, 11], [ymd 2020 1 2, ymd 2020 1 3])
   \<and> compute_returns_overnight_intraday [10, 11] [11, 0] [11, 11]
       [ymd 2020 1 2, ymd 2020 1 3] = Inl ZeroDivisionError"
  by code_simp

text \<open>
  C3. When all consecutive dates are less than 14 days apart, every open is positive,
  every close is nonzero and every adjusted close is positive, the decomposition returns
  and \<open>(1 + overnight[i]) * (1 + intraday[i]) - 1\<close> is
  \<open>adjustedClose[i] / adjustedClose[i-1] - 1\<close> for every \<open>i \<ge> 1\<close>.
\<close>

theorem decomposition_reconstructs_close_to_close:
  assumes len: "length price_open = length dates_datetime"
    "length price_close = length dates_datetime"
    "length price_close_adj = length dates_datetime"
    and gaps: "\<forall>i. Suc i < length dates_datetime \<longrightarrow>
                 dt_sub (dates_datetime ! Suc i) (dates_datetime ! i) < timedelta_days 14"
    and po: "\<forall>p \<in> set price_open. 0 < p"
    and pc: "\<forall>p \<in> set price_close. p \<noteq> 0"
    and pa: "\<forall>p \<in> set price_close_adj. 0 < p"
  shows "\<exists>ov intr.
           compute_returns_overnight_intraday price_open price_close price_close_adj
             dates_datetime = Inr (ov, intr)
           \<and> (\<forall>i. 1 \<le> i \<and> i < length dates_datetime \<longrightarrow>
                 (1 + ov ! i) * (1 + intr ! i) - 1
                 = price_close_adj ! i / price_close_adj ! (i - 1) - 1)"
proof -
  have po': "\<forall>i < length dates_datetime. price_open ! i \<noteq> 0"
    using po len(1) by (metis less_irrefl nth_mem)
  have pa': "\<forall>i. Suc i < length dates_datetime \<longrightarrow> price_close_adj ! i \<noteq> 0"
    using pa len(3) by (metis Suc_lessD less_irrefl nth_mem)
  have pc': "\<forall>i. Suc i < length dates_datetime
               \<and> dt_sub (dates_datetime ! Suc i) (dates_datetime ! i) < timedelta_days 14
               \<longrightarrow> 1 + (price_close ! Suc i / price_open ! Suc i - 1) \<noteq> 0"
  proof (intro allI impI)
    fix i
    assume "Suc i < length dates_datetime
               \<and> dt_sub (dates_datetime ! Suc i) (dates_datetime ! i) < timedelta_days 14"
    then have i: "Suc i < length dates_datetime" by simp
    with pc len(2) have "price_close ! Suc i \<noteq> 0" by (metis nth_mem)
    moreover from po' i have "price_open ! Suc i \<noteq> 0" by blast
    ultimately show "1 + (price_close ! Suc i / price_open ! Suc i - 1) \<noteq> 0" by simp
  qed
  from compute_returns_total [OF len po' pa' pc'] obtain ov intr where
    res: "compute_returns_overnight_intraday price_open price_close price_close_adj
            dates_datetime = Inr (ov, intr)"
    by (metis surj_pair)
  have "\<forall>i. 1 \<le> i \<and> i < length dates_datetime \<longrightarrow>
                 (1 + ov ! i) * (1 + intr ! i) - 1
                 = price_close_adj ! i / price_close_adj ! (i - 1) - 1"
  proof (intro allI impI)
    fix i assume i: "1 \<le> i \<and> i < length dates_datetime"
    then obtain j where j: "i = Suc j" by (cases i) simp_all
    from i have n: "0 < length dates_datetime" by linarith
    note D = compute_returns_D [OF len n res]
    from D(5) i j gaps have nz: "1 + intr ! Suc j \<noteq> 0"
      and ov: "ov ! Suc j = (1 + (price_close_adj ! Suc j / price_close_adj ! j - 1))
                       / (1 + intr ! Suc j) - 1"
      by simp_all
    from nz ov j show "(1 + ov ! i) * (1 + intr ! i) - 1
                 = price_close_adj ! i / price_close_adj ! (i - 1) - 1"
      by simp
  qed
  with res show ?thesis by blast
qed

theorem decomposition_reconstructs_close_to_close_witness:
  "\<exists>ov intr.
     compute_returns_overnight_intraday [10, 11] [11, 12] [22, 23]
       [ymd 2020 1 2, ymd 2020 1 3] = Inr (ov, intr)
     \<and> (1 + ov ! 1) * (1 + intr ! 1) - 1 = 23 / 22 - 1"
proof -
  let ?po = "[10, 11] :: real list" and ?pc = "[11, 12] :: real list"
  let ?pa = "[22, 23] :: real list"
  let ?ds = "[ymd 2020 1 2, ymd 2020 1 3]"
  have gaps: "\<forall>i. Suc i < length ?ds \<longrightarrow>
                 dt_sub (?ds ! Suc i) (?ds ! i) < timedelta_days 14"
    by (simp add: dt_eval)
  have "\<exists>ov intr.
           compute_returns_overnight_intraday ?po ?pc ?pa ?ds = Inr (ov, intr)
           \<and> (\<forall>i. 1 \<le> i \<and> i < length ?ds \<longrightarrow>
                 (1 + ov ! i) * (1 + intr ! i) - 1 = ?pa ! i / ?pa ! (i - 1) - 1)"
    by (rule decomposition_reconstructs_close_to_close [OF _ _ _ gaps]) simp_all
  then obtain ov intr where
    res: "compute_returns_overnight_intraday ?po ?pc ?pa ?ds = Inr (ov, intr)"
    and P: "\<forall>i. 1 \<le> i \<and> i < length ?ds \<longrightarrow>
                 (1 + ov ! i) * (1 + intr ! i) - 1 = ?pa ! i / ?pa ! (i - 1) - 1"
    by blast
  from P [THEN spec, of 1] have "(1 + ov ! 1) * (1 + intr ! 1) - 1 = 23 / 22 - 1" by simp
  with res show ?thesis by blast
qed

section \<open>Structure of get_prices_open_close_adj_dates\<close>

lemma split_sep_nonempty: "split_sep c s \<noteq> []"
  by (induction s) (simp_all split: list.splits)

lemma slice_map: "slice i j (map f xs) = map f (slice i j xs)"
  by (simp add: slice_def take_map drop_map)

lemma set_slice_subset: "set (slice i j xs) \<subseteq> set xs"
  unfolding slice_def by (meson set_drop_subset set_take_subset subset_trans)

lemma length_slice: "length (slice i j xs) = min (j - i) (length xs - i)"
  by (simp add: slice_def)

lemma map_sum_Inr_iff: "map_sum f g m = Inr y \<longleftrightarrow> (\<exists>x. m = Inr x \<and> y = g x)"
  by (cases m) auto

lemma if_Inr: "(if c then Inr x else Inr y) = Inr (if c then x else y)"
  by simp

lemma filtered_data_lines:
  "filtered_data (h # rest) b = Inr data \<longleftrightarrow>
   strip h = HEADER
   \<and> (\<exists>bs ls. mapE strftime (or_default b []) = Inr bs
              \<and> surviving_lines bs rest = Inr ls
              \<and> data = map (split_sep CHR '','') ls)"
  by (auto simp: filtered_data_def Let_def bindE_Inr_iff surviving_lines_def filter_map
      comp_def filterE_map map_sum_Inr_iff)

lemma price_columns_Inr_iff:
  "price_columns data = Inr (po, pc, pa, ds) \<longleftrightarrow>
   mapE (field_float 1) data = Inr po \<and> mapE (field_float 4) data = Inr pc
   \<and> mapE (field_float 5) data = Inr pa \<and> list_all (\<lambda>p. 0 < p) pa
   \<and> mapE row_datetime data = Inr ds"
  by (auto simp: price_columns_def bindE_Inr_iff split: if_splits)

lemma list_all_slice: "list_all P xs \<Longrightarrow> list_all P (slice i j xs)"
  using set_slice_subset [of i j xs] by (auto simp: list_all_iff)

lemma price_columns_slice:
  "price_columns data = Inr (po, pc, pa, ds) \<Longrightarrow>
   price_columns (slice i j data) = Inr (slice i j po, slice i j pc, slice i j pa, slice i j ds)"
  by (simp add: price_columns_Inr_iff mapE_slice list_all_slice)

lemma price_columns_lengths:
  "price_columns data = Inr (po, pc, pa, ds) \<Longrightarrow>
   length po = length data \<and> length pc = length data \<and> length pa = length data
   \<and> length ds = length data"
  by (auto simp: price_columns_Inr_iff dest: mapE_length)

lemma get_prices_Inr_iff:
  "get_prices_open_close_adj_dates raw s e b = Inr cols \<longleftrightarrow>
   (\<exists>data po pc pa ds d0 d1.
      filtered_data raw b = Inr data \<and> price_columns data = Inr (po, pc, pa, ds)
      \<and> date_window po pc ds s e = Inr (d0, d1)
      \<and> cols = (if 1 < d0 \<or> d1 < length ds
                 then (slice d0 d1 po, slice d0 d1 pc, slice d0 d1 pa, slice d0 d1 ds)
                 else (po, pc, pa, ds)))"
  by (auto simp: get_prices_open_close_adj_dates_def bindE_Inr_iff if_Inr split del: if_split)

lemma retained_lines_Inr_iff:
  "retained_lines (h # rest) s e b = Inr ls \<longleftrightarrow>
   strip h = HEADER
   \<and> (\<exists>bs ls0 po pc pa ds d0 d1.
        mapE strftime (or_default b []) = Inr bs
        \<and> surviving_lines bs rest = Inr ls0
        \<and> price_columns (map (split_sep CHR '','') ls0) = Inr (po, pc, pa, ds)
        \<and> date_window po pc ds s e = Inr (d0, d1)
        \<and> ls = (if 1 < d0 \<or> d1 < length ds then slice d0 d1 ls0 else ls0))"
proof (cases "strip h = HEADER")
  case True
  then show ?thesis
    by (auto simp: retained_lines_def bindE_Inr_iff split del: if_split)
next
  case False
  then show ?thesis by (simp add: retained_lines_def)
qed

lemma filtered_data_nonempty: "filtered_data raw b = Inr data \<Longrightarrow> \<exists>h rest. raw = h # rest"
  by (cases raw) (simp_all add: filtered_data_def)

lemma columns_of_retained_lines:
  assumes "get_prices_open_close_adj_dates raw s e b = Inr cols"
  shows "\<exists>ls. retained_lines raw s e b = Inr ls
              \<and> price_columns (map (split_sep CHR '','') ls) = Inr cols"
proof -
  from assms obtain data po pc pa ds d0 d1 where
    fd: "filtered_data raw b = Inr data" and pcs: "price_columns data = Inr (po, pc, pa, ds)"
    and dw: "date_window po pc ds s e = Inr (d0, d1)"
    and cols: "cols = (if 1 < d0 \<or> d1 < length ds
                 then (slice d0 d1 po, slice d0 d1 pc, slice d0 d1 pa, slice d0 d1 ds)
                 else (po, pc, pa, ds))"
    unfolding get_prices_Inr_iff by blast
  from fd obtain h rest where raw: "raw = h # rest"
    using filtered_data_nonempty by blast
  from fd [unfolded raw filtered_data_lines] obtain bs ls0 where h: "strip h = HEADER"
    and bs: "mapE strftime (or_default b []) = Inr bs"
    and sv: "surviving_lines bs rest = Inr ls0"
    and data: "data = map (split_sep CHR '','') ls0"
    by blast
  let ?ls = "if 1 < d0 \<or> d1 < length ds then slice d0 d1 ls0 else ls0"
  have "retained_lines raw s e b = Inr ?ls"
    unfolding raw retained_lines_Inr_iff using h bs sv pcs dw data by blast
  moreover have "price_columns (map (split_sep CHR '','') ?ls) = Inr cols"
    using pcs price_columns_slice [OF pcs, of d0 d1] data cols by (simp add: slice_map)
  ultimately show ?thesis by blast
qed

section \<open>What every returned series satisfies\<close>

lemma surviving_lines_D:
  "surviving_lines bs rest = Inr ls \<Longrightarrow> l \<in> set ls \<Longrightarrow>
   l \<in> set rest \<and> keep_line bs l \<and> distinct_ohlc (split_sep CHR '','' l)
   \<and> positive_open (split_sep CHR '','' l) = Inr True"
  by (auto simp: surviving_lines_def filterE_Inr_iff)

lemma retained_lines_D:
  assumes "retained_lines raw s e b = Inr ls" and "l \<in> set ls"
  shows "l \<in> set (tl raw) \<and> l \<noteq> [] \<and> \<not> sub_in ''null'' l
         \<and> distinct_ohlc (split_sep CHR '','' l)
         \<and> positive_open (split_sep CHR '','' l) = Inr True"
proof (cases raw)
  case Nil
  with assms show ?thesis by (simp add: retained_lines_def)
next
  case (Cons h rest)
  from assms(1) [unfolded Cons retained_lines_Inr_iff]
  obtain bs ls0 d0 d1 and c :: bool where
    sv: "surviving_lines bs rest = Inr ls0"
    and ls: "ls = (if c then slice d0 d1 ls0 else ls0)"
    by blast
  from ls assms(2) set_slice_subset [of d0 d1 ls0] have "l \<in> set ls0"
    by (auto split: if_splits)
  from surviving_lines_D [OF sv this] Cons show ?thesis
    by (simp add: keep_line_def)
qed

lemma positive_open_True:
  "positive_open d = Inr True \<Longrightarrow> \<exists>p. field_float 1 d = Inr p \<and> 0 < p"
  by (auto simp: positive_open_def field_float_def bindE_Inr_iff)

lemma mapE_set_D:
  "mapE f xs = Inr ys \<Longrightarrow> y \<in> set ys \<Longrightarrow> \<exists>x \<in> set xs. f x = Inr y"
proof -
  assume m: "mapE f xs = Inr ys" and "y \<in> set ys"
  then obtain i where i: "i < length ys" "ys ! i = y"
    by (auto simp: in_set_conv_nth)
  from m have "length xs = length ys" and "\<forall>i < length xs. f (xs ! i) = Inr (ys ! i)"
    by (simp_all add: mapE_Inr_iff list_all2_conv_all_nth)
  with i have "xs ! i \<in> set xs" and "f (xs ! i) = Inr y" by simp_all
  then show ?thesis by blast
qed

lemma get_prices_invariants:
  assumes "get_prices_open_close_adj_dates raw s e b = Inr (po, pc, pa, ds)"
  shows "length po = length ds" and "length pc = length ds" and "length pa = length ds"
    and "\<forall>p \<in> set po. 0 < p" and "\<forall>p \<in> set pa. 0 < p"
proof -
  from columns_of_retained_lines [OF assms] obtain ls where
    rl: "retained_lines raw s e b = Inr ls"
    and pcs: "price_columns (map (split_sep CHR '','') ls) = Inr (po, pc, pa, ds)"
    by blast
  from price_columns_lengths [OF pcs]
  show "length po = length ds" "length pc = length ds" "length pa = length ds"
    by simp_all
  from pcs show "\<forall>p \<in> set pa. 0 < p"
    by (simp add: price_columns_Inr_iff list_all_iff)
  show "\<forall>p \<in> set po. 0 < p"
  proof
    fix p assume "p \<in> set po"
    with pcs obtain l where l: "l \<in> set ls"
      and p: "field_float 1 (split_sep CHR '','' l) = Inr p"
      by (auto simp: price_columns_Inr_iff mapE_map dest: mapE_set_D)
    from retained_lines_D [OF rl l] positive_open_True p show "0 < p"
      by fastforce
  qed
qed

text \<open>
  C9 (as the code has it). On every series the function returns, every open and every
  adjusted close is positive, so the decomposition never divides by \<open>open[i] = 0\<close> nor by
  a zero adjusted close. Nothing is guaranteed about \<open>1 + intraday[i]\<close>: the
  decomposition returns, dividing by zero nowhere, exactly when \<open>1 + intraday[i]\<close>, that
  is \<open>1 + (close[i] / open[i] - 1)\<close>, is nonzero for every \<open>i \<ge> 1\<close> dated less than 14
  days after its predecessor.
\<close>

theorem cleaned_series_divisions_safe:
  assumes "get_prices_open_close_adj_dates raw s e b = Inr (po, pc, pa, ds)"
  shows "(\<forall>i < length ds. 0 < po ! i)
         \<and> (\<forall>i < length ds. 0 < pa ! i)
         \<and> ((\<exists>r. compute_returns_overnight_intraday po pc pa ds = Inr r)
            \<longleftrightarrow> (\<forall>i. Suc i < length ds
                       \<and> dt_sub (ds ! Suc i) (ds ! i) < timedelta_days 14
                       \<longrightarrow> 1 + (pc ! Suc i / po ! Suc i - 1) \<noteq> 0))"
proof -
  note inv = get_prices_invariants [OF assms]
  have po: "\<forall>i < length ds. 0 < po ! i"
    using inv(1,4) by (metis nth_mem)
  have pa: "\<forall>i < length ds. 0 < pa ! i"
    using inv(3,5) by (metis nth_mem)
  from po have po0: "\<forall>i < length ds. po ! i \<noteq> 0"
    by (metis less_irrefl)
  from pa have pa0: "\<forall>i. Suc i < length ds \<longrightarrow> pa ! i \<noteq> 0"
    by (metis Suc_lessD less_irrefl)
  from compute_returns_returns_iff [OF inv(1-3)] po0 pa0
  have "(\<exists>r. compute_returns_overnight_intraday po pc pa ds = Inr r)
            \<longleftrightarrow> (\<forall>i. Suc i < length ds
                       \<and> dt_sub (ds ! Suc i) (ds ! i) < timedelta_days 14
                       \<longrightarrow> 1 + (pc ! Suc i / po ! Suc i - 1) \<noteq> 0)"
    by simp
  with po pa show ?thesis by blast
qed

theorem cleaned_series_divisions_safe_witness:
  "get_prices_open_close_adj_dates csv_two_days None None None
     = Inr ([10, 11], [11, 12], [11, 12], [ymd 2020 1 2, ymd 2020 1 3])
   \<and> 1 + (12 / 11 - 1) \<noteq> (0 :: real)
   \<and> (\<exists>r. compute_returns_overnight_intraday [10, 11] [11, 12] [11, 12]
             [ymd 2020 1 2, ymd 2020 1 3] = Inr r)"
proof -
  let ?po = "[10, 11] :: real list" and ?pc = "[11, 12] :: real list"
  let ?ds = "[ymd 2020 1 2, ymd 2020 1 3]"
  have gp: "get_prices_open_close_adj_dates csv_two_days None None None
     = Inr (?po, ?pc, ?pc, ?ds)"
    by code_simp
  have d: "\<forall>i. Suc i < length ?ds \<and> dt_sub (?ds ! Suc i) (?ds ! i) < timedelta_days 14
             \<longrightarrow> 1 + (?pc ! Suc i / ?po ! Suc i - 1) \<noteq> 0"
    by simp
  from cleaned_series_divisions_safe [OF gp] d
  have "\<exists>r. compute_returns_overnight_intraday ?po ?pc ?pc ?ds = Inr r"
    by blast
  with gp show ?thesis by simp
qed

text \<open>
  C9 as stated fails: a row with a positive open and a close of \<open>0\<close> passes every
  filter, its intraday return is \<open>-1\<close>, and the overnight return of that day divides
  by \<open>1 + intraday = 0\<close>. (In the program's doubles a close small enough for
  \<open>close / open - 1\<close> to round to \<open>-1\<close> does the same.)
\<close>

theorem division_by_zero_after_clean:
  "get_prices_open_close_adj_dates csv_zero_close None None None
     = Inr ([10, 10], [11, 0], [11, 5], [ymd 2020 1 2, ymd 2020 1 3])
   \<and> compute_returns_overnight_intraday [10, 10] [11, 0] [11, 5]
       [ymd 2020 1 2, ymd 2020 1 3] = Inl ZeroDivisionError"
  by code_simp

text \<open>
  C8 (as the code has it). When the function returns an empty series, the decomposition
  returns a pair of empty lists, the cumulation of an empty list is empty, and
  \<open>get_plot_data\<close> returns \<open>None\<close>: no exception is raised on the empty series.
\<close>

theorem empty_series_downstream:
  assumes "get_prices_open_close_adj_dates data
             (case start_date of Some d \<Rightarrow> Some d | None \<Rightarrow> sd_start_date s)
             (sd_end_date s) (sd_bad_data_dates s) = Inr (po, pc, pa, ds)"
    and "ds = []"
  shows "compute_returns_overnight_intraday po pc pa ds = Inr ([], [])
         \<and> cumulate_returns [] = []
         \<and> get_plot_data data s start_date = Inr None"
proof -
  from get_prices_invariants(1-3) [OF assms(1)] assms(2)
  have e: "po = []" "pc = []" "pa = []" by simp_all
  then have c: "compute_returns_overnight_intraday po pc pa ds = Inr ([], [])"
    using assms(2) by (simp add: compute_returns_overnight_intraday_def)
  moreover have "cumulate_returns [] = []"
    by (simp add: cumulate_returns_def)
  moreover have "get_plot_data data s start_date = Inr None"
    using assms c by (simp add: get_plot_data_def)
  ultimately show ?thesis by blast
qed

theorem empty_series_downstream_witness:
  "get_prices_open_close_adj_dates csv_after_end None None None = Inr ([], [], [], [])
   \<and> compute_returns_overnight_intraday [] [] [] [] = Inr ([], [])
   \<and> get_plot_data csv_after_end
       \<lparr>sd_start_date = None, sd_end_date = None, sd_bad_data_dates = None\<rparr> None = Inr None"
proof -
  let ?s = "\<lparr>sd_start_date = None, sd_end_date = None, sd_bad_data_dates = None\<rparr>"
  have gp: "get_prices_open_close_adj_dates csv_after_end
              (case None of Some d \<Rightarrow> Some d | None \<Rightarrow> sd_start_date ?s)
              (sd_end_date ?s) (sd_bad_data_dates ?s) = Inr ([], [], [], [])"
    by code_simp
  from empty_series_downstream [OF gp refl] gp show ?thesis by simp
qed

text \<open>
  C8 as stated fails: when the exclusion list removes the only row, the function does
  not return an empty series (the search for the first row with \<open>open \<noteq> close\<close> raises
  ValueError), and the decomposition of an empty series is a pair of empty lists, not an
  error.
\<close>

theorem no_empty_series_error:
  "filtered_data csv_one_row (Some [ymd 2020 1 2]) = Inr []
   \<and> get_prices_open_close_adj_dates csv_one_row None None (Some [ymd 2020 1 2])
       = Inl ValueError
   \<and> compute_returns_overnight_intraday [] [] [] [] = Inr ([], [])
   \<and> cumulate_returns [] = []"
  by code_simp

section \<open>Flat rows\<close>

lemma flat_text_not_distinct:
  assumes "5 \<le> length d" and "d ! 1 = d ! 2" and "d ! 2 = d ! 3" and "d ! 3 = d ! 4"
  shows "\<not> distinct_ohlc d"
proof -
  have "set (slice 1 5 d) \<subseteq> {d ! 1}"
  proof
    fix x assume "x \<in> set (slice 1 5 d)"
    then obtain i where i: "i < 4" and x: "x = d ! (1 + i)"
      using assms(1) by (auto simp: slice_def in_set_conv_nth)
    from i have "i = 0 \<or> i = 1 \<or> i = 2 \<or> i = 3" by arith
    moreover have "d ! (1 + 0) = d ! 1" "d ! (1 + 1) = d ! 1" "d ! (1 + 2) = d ! 1"
      "d ! (1 + 3) = d ! 1"
      using assms(2-4) by (simp_all add: eval_nat_numeral)
    ultimately have "d ! (1 + i) = d ! 1" by blast
    with x show "x \<in> {d ! 1}" by simp
  qed
  then have "card (set (slice 1 5 d)) \<le> card {d ! 1}"
    by (intro card_mono) simp_all
  then show ?thesis
    by (simp add: distinct_ohlc_def)
qed

text \<open>
  C6 (as the code has it). The four price fields are compared as text. Every line whose
  open, high, low and close fields are the same text is absent from the lines behind the
  returned columns, whatever its date.
\<close>

theorem textually_flat_rows_absent:
  assumes "get_prices_open_close_adj_dates raw s e b = Inr cols"
  shows "\<exists>ls. retained_lines raw s e b = Inr ls
              \<and> price_columns (map (split_sep CHR '','') ls) = Inr cols
              \<and> (\<forall>l. (let d = split_sep CHR '','' l
                        in 5 \<le> length d \<and> d ! 1 = d ! 2 \<and> d ! 2 = d ! 3 \<and> d ! 3 = d ! 4)
                       \<longrightarrow> l \<notin> set ls)"
proof -
  from columns_of_retained_lines [OF assms] obtain ls where
    rl: "retained_lines raw s e b = Inr ls"
    and pcs: "price_columns (map (split_sep CHR '','') ls) = Inr cols"
    by blast
  have "\<forall>l. (let d = split_sep CHR '','' l
              in 5 \<le> length d \<and> d ! 1 = d ! 2 \<and> d ! 2 = d ! 3 \<and> d ! 3 = d ! 4)
             \<longrightarrow> l \<notin> set ls"
  proof (intro allI impI notI)
    fix l
    assume flat: "let d = split_sep CHR '','' l
                  in 5 \<le> length d \<and> d ! 1 = d ! 2 \<and> d ! 2 = d ! 3 \<and> d ! 3 = d ! 4"
      and "l \<in> set ls"
    from retained_lines_D [OF rl this(2)] have "distinct_ohlc (split_sep CHR '','' l)"
      by simp
    moreover from flat have "\<not> distinct_ohlc (split_sep CHR '','' l)"
      unfolding Let_def by (intro flat_text_not_distinct) blast+
    ultimately show False by contradiction
  qed
  with rl pcs show ?thesis by blast
qed

theorem textually_flat_rows_absent_witness:
  "get_prices_open_close_adj_dates csv_flat None None None
     = Inr ([10, 11], [11, 12], [11, 12], [ymd 2020 1 3, ymd 2020 1 6])
   \<and> (\<exists>ls. retained_lines csv_flat None None None = Inr ls
            \<and> ''2020-01-02,10,10,10,10,10,0'' \<notin> set ls)"
proof -
  have gp: "get_prices_open_close_adj_dates csv_flat None None None
     = Inr ([10, 11], [11, 12], [11, 12], [ymd 2020 1 3, ymd 2020 1 6])"
    by code_simp
  have flat: "let d = split_sep CHR '','' ''2020-01-02,10,10,10,10,10,0''
              in 5 \<le> length d \<and> d ! 1 = d ! 2 \<and> d ! 2 = d ! 3 \<and> d ! 3 = d ! 4"
    by code_simp
  from textually_flat_rows_absent [OF gp] flat gp show ?thesis by blast
qed

text \<open>
  C6 as stated fails: \<open>10\<close> and \<open>10.0\<close> are the same number and different text, so
  a row whose four prices all equal 10 is kept.
\<close>

theorem numerically_flat_row_kept:
  "map py_float [''10'', ''10.0'', ''10'', ''10''] = [Inr 10, Inr 10, Inr 10, Inr 10]
   \<and> retained_lines csv_textual None None None
     = Inr [''2020-01-02,10,12,9,11,11,0'', ''2020-01-03,10,10.0,10,10,10,0'']
   \<and> get_prices_open_close_adj_dates csv_textual None None None
     = Inr ([10, 10], [11, 10], [11, 10], [ymd 2020 1 2, ymd 2020 1 3])"
  by code_simp

section \<open>The assertion on adjusted closes\<close>

lemma py_int_Inl: "py_int s = Inl e \<Longrightarrow> e = ValueError"
  by (auto simp: py_int_def Let_def split: prod.splits if_splits)

lemma new_datetime_Inl:
  "new_datetime args = Inl e \<Longrightarrow> e = TypeError \<or> e = OverflowError \<or> e = ValueError"
  unfolding new_datetime_def Let_def by (simp split: if_splits)

lemma row_datetime_Inl:
  assumes "row_datetime d = Inl e"
  shows "e = IndexError \<or> e = TypeError \<or> e = OverflowError \<or> e = ValueError"
proof -
  from assms consider "item d 0 = Inl e"
    | s where "mapE py_int (split_sep CHR ''-'' s) = Inl e"
    | xs where "new_datetime xs = Inl e"
    by (auto simp: row_datetime_def bindE_Inl_iff)
  then show ?thesis
  proof cases
    case 1
    then show ?thesis by (simp add: item_def split: if_splits)
  next
    case 2
    from mapE_Inl_D [OF this] py_int_Inl show ?thesis by blast
  next
    case 3
    from new_datetime_Inl [OF this] show ?thesis by blast
  qed
qed

lemma py_max_Inl: "py_max ds = Inl e \<Longrightarrow> e = ValueError"
  by (simp add: py_max_def split: list.splits)

lemma date_window_Inl:
  assumes "date_window po pc ds s e = Inl err"
  shows "err = ValueError"
  using assms
  by (auto simp: date_window_def Let_def bindE_Inl_iff split: if_splits
      dest: index_true_Inl py_max_Inl)

lemma filtered_data_open_parses:
  assumes "filtered_data raw b = Inr data"
  shows "\<exists>po. mapE (field_float 1) data = Inr po"
proof -
  from filtered_data_nonempty [OF assms] obtain h rest where raw: "raw = h # rest" by blast
  from assms [unfolded raw filtered_data_lines] obtain bs ls where
    sv: "surviving_lines bs rest = Inr ls" and data: "data = map (split_sep CHR '','') ls"
    by blast
  have "\<forall>d \<in> set data. \<exists>p. field_float 1 d = Inr p"
    using surviving_lines_D [OF sv] positive_open_True unfolding data by fastforce
  then show ?thesis by (rule mapE_total)
qed

text \<open>
  C7. On an input that passes the header check and whose rows remaining after the three
  filters have close and adjusted-close fields that are numbers, the function fails with
  the bad-data assertion if and only if some remaining row has an adjusted close
  \<open>\<le> 0\<close>: such a row is never dropped silently, and without one this error is not
  raised.
\<close>

theorem integrity_error_iff:
  assumes fd: "filtered_data raw b = Inr data"
    and pc: "mapE (field_float 4) data = Inr price_close"
    and pa: "mapE (field_float 5) data = Inr price_close_adj"
  shows "get_prices_open_close_adj_dates raw s e b = Inl AssertBadData
         \<longleftrightarrow> (\<exists>p \<in> set price_close_adj. p \<le> 0)"
proof -
  from filtered_data_open_parses [OF fd] obtain po where
    po: "mapE (field_float 1) data = Inr po" by blast
  show ?thesis
  proof (cases "list_all (\<lambda>p. 0 < p) price_close_adj")
    case False
    then have "price_columns data = Inl AssertBadData"
      using po pc pa by (simp add: price_columns_def)
    then have "get_prices_open_close_adj_dates raw s e b = Inl AssertBadData"
      using fd by (simp add: get_prices_open_close_adj_dates_def)
    moreover from False have "\<exists>p \<in> set price_close_adj. p \<le> 0"
      by (auto simp: list_all_iff not_less)
    ultimately show ?thesis by simp
  next
    case True
    then have none: "\<not> (\<exists>p \<in> set price_close_adj. p \<le> 0)"
      by (auto simp: list_all_iff)
    have "get_prices_open_close_adj_dates raw s e b \<noteq> Inl AssertBadData"
    proof
      assume bad: "get_prices_open_close_adj_dates raw s e b = Inl AssertBadData"
      show False
      proof (cases "mapE row_datetime data")
        case (Inl err)
        with True po pc pa have "price_columns data = Inl err"
          by (simp add: price_columns_def)
        with fd bad have "err = AssertBadData"
          by (simp add: get_prices_open_close_adj_dates_def)
        moreover from mapE_Inl_D [OF Inl] row_datetime_Inl
        have "err = IndexError \<or> err = TypeError \<or> err = OverflowError \<or> err = ValueError"
          by blast
        ultimately show False by simp
      next
        case (Inr ds)
        with True po pc pa have "price_columns data = Inr (po, price_close, price_close_adj, ds)"
          by (simp add: price_columns_def)
        with fd bad have "date_window po price_close ds s e = Inl AssertBadData"
          by (auto simp: get_prices_open_close_adj_dates_def bindE_Inl_iff split: if_splits)
        from date_window_Inl [OF this] show False by simp
      qed
    qed
    with none show ?thesis by simp
  qed
qed

theorem integrity_error_iff_witness:
  "filtered_data csv_bad_adj None = Inr [[''2020-01-02'', ''10'', ''12'', ''9'', ''11'', ''-1'', ''0'']]
   \<and> get_prices_open_close_adj_dates csv_bad_adj None None None = Inl AssertBadData"
proof -
  let ?data = "[[''2020-01-02'', ''10'', ''12'', ''9'', ''11'', ''-1'', ''0'']]"
  have fd: "filtered_data csv_bad_adj None = Inr ?data" by code_simp
  have pc: "mapE (field_float 4) ?data = Inr [11]" by code_simp
  have pa: "mapE (field_float 5) ?data = Inr [- 1]" by code_simp
  from integrity_error_iff [OF fd pc pa, of None None] fd show ?thesis by simp
qed

section \<open>Cleaning a cleaned series\<close>

lemma lex_lt_asym: "length xs = length ys \<Longrightarrow> lex_lt xs ys \<Longrightarrow> \<not> lex_lt ys xs"
  by (induction xs ys rule: list_induct2) auto

lemma lex_lt_neg_trans:
  "length xs = length ys \<Longrightarrow> length ys = length zs \<Longrightarrow>
   lex_lt xs ys \<Longrightarrow> \<not> lex_lt zs ys \<Longrightarrow> lex_lt xs zs"
  by (induction xs ys zs rule: list_induct3) auto

lemma dt_lt_asym: "dt_lt a b \<Longrightarrow> \<not> dt_lt b a"
  unfolding dt_lt_def by (rule lex_lt_asym) (simp_all add: dt_fields_def)

lemma dt_lt_neg_trans: "dt_lt a b \<Longrightarrow> \<not> dt_lt c b \<Longrightarrow> dt_lt a c"
  unfolding dt_lt_def by (rule lex_lt_neg_trans [of _ "dt_fields b"]) (simp_all add: dt_fields_def)

lemma dt_lt_trans: "dt_lt a b \<Longrightarrow> dt_lt b c \<Longrightarrow> dt_lt a c"
  using dt_lt_asym dt_lt_neg_trans by blast

lemma foldl_max_bounds:
  "\<not> dt_lt (foldl (\<lambda>m x. if dt_lt m x then x else m) m0 xs) m0
   \<and> (\<forall>d \<in> set xs. \<not> dt_lt (foldl (\<lambda>m x. if dt_lt m x then x else m) m0 xs) d)"
proof (induction xs arbitrary: m0)
  case Nil
  show ?case using dt_lt_asym by auto
next
  case (Cons x xs)
  let ?f = "\<lambda>m x. if dt_lt m x then x else m"
  show ?case
  proof (cases "dt_lt m0 x")
    case True
    from Cons.IH [of x] have a: "\<not> dt_lt (foldl ?f x xs) x"
      and b: "\<forall>d \<in> set xs. \<not> dt_lt (foldl ?f x xs) d" by simp_all
    from a True have "\<not> dt_lt (foldl ?f x xs) m0"
      using dt_lt_trans by blast
    with a b True show ?thesis by simp
  next
    case False
    from Cons.IH [of m0] have a: "\<not> dt_lt (foldl ?f m0 xs) m0"
      and b: "\<forall>d \<in> set xs. \<not> dt_lt (foldl ?f m0 xs) d" by simp_all
    from a False have "\<not> dt_lt (foldl ?f m0 xs) x"
      using dt_lt_neg_trans by blast
    with a b False show ?thesis by simp
  qed
qed

lemma foldl_max_mem:
  "foldl (\<lambda>m x. if dt_lt m x then x else m) m0 xs \<in> insert m0 (set xs)"
proof (induction xs arbitrary: m0)
  case Nil
  show ?case by simp
next
  case (Cons x xs)
  from Cons.IH [of x] Cons.IH [of m0] show ?case by auto
qed

lemma py_max_Inr_D:
  assumes "py_max ds = Inr m"
  shows "m \<in> set ds" and "\<forall>d \<in> set ds. \<not> dt_lt m d"
proof -
  from assms obtain d rest where ds: "ds = d # rest"
    and m: "m = foldl (\<lambda>m x. if dt_lt m x then x else m) d rest"
    by (auto simp: py_max_def split: list.splits)
  from foldl_max_mem [of d rest] show "m \<in> set ds" by (simp add: ds m)
  from foldl_max_bounds [of d rest] show "\<forall>d \<in> set ds. \<not> dt_lt m d" by (simp add: ds m)
qed

lemma py_max_total: "ds \<noteq> [] \<Longrightarrow> \<exists>m. py_max ds = Inr m"
  by (cases ds) (simp_all add: py_max_def)

lemma date_window_D:
  assumes "date_window po pc ds s e = Inr (d0, d1)"
  shows "d1 \<le> length ds"
    and "\<forall>k < d1. \<not> dt_lt (or_default e DEFAULT_END_DATE) (ds ! k)"
    and "\<exists>a b. index_true (map (\<lambda>(p_open, p_close). p_open \<noteq> p_close) (zip po pc)) = Inr a
              \<and> index_true (map (\<lambda>d. dt_ge d (or_default s DEFAULT_START_DATE)) ds) = Inr b
              \<and> d0 = max a b"
proof -
  let ?E = "or_default e DEFAULT_END_DATE"
  from assms obtain a b m where
    a: "index_true (map (\<lambda>(p_open, p_close). p_open \<noteq> p_close) (zip po pc)) = Inr a"
    and b: "index_true (map (\<lambda>d. dt_ge d (or_default s DEFAULT_START_DATE)) ds) = Inr b"
    and d0: "d0 = max a b"
    and m: "py_max ds = Inr m"
    and d1: "(if dt_lt ?E m then index_true (map (\<lambda>d. dt_gt d ?E) ds)
              else Inr (length ds)) = Inr d1"
    by (auto simp: date_window_def Let_def bindE_Inr_iff)
  from a b d0 show "\<exists>a b. index_true (map (\<lambda>(p_open, p_close). p_open \<noteq> p_close) (zip po pc)) = Inr a
              \<and> index_true (map (\<lambda>d. dt_ge d (or_default s DEFAULT_START_DATE)) ds) = Inr b
              \<and> d0 = max a b" by blast
  show "d1 \<le> length ds" and "\<forall>k < d1. \<not> dt_lt ?E (ds ! k)"
  proof -
    have "d1 \<le> length ds \<and> (\<forall>k < d1. \<not> dt_lt ?E (ds ! k))"
    proof (cases "dt_lt ?E m")
      case True
      with d1 have "index_true (map (\<lambda>d. dt_gt d ?E) ds) = Inr d1" by simp
      then have "d1 < length ds" and "\<forall>k < d1. \<not> dt_gt (ds ! k) ?E"
        by (auto simp: index_true_Inr_iff)
      then show ?thesis by (simp add: dt_gt_def)
    next
      case False
      with d1 have len: "d1 = length ds" by simp
      have "\<forall>k < length ds. \<not> dt_lt ?E (ds ! k)"
      proof (intro allI impI notI)
        fix k assume k: "k < length ds" and late: "dt_lt ?E (ds ! k)"
        from py_max_Inr_D(2) [OF m] k have "\<not> dt_lt m (ds ! k)" by simp
        from dt_lt_neg_trans [OF late this] False show False by simp
      qed
      with len show ?thesis by simp
    qed
    then show "d1 \<le> length ds" and "\<forall>k < d1. \<not> dt_lt ?E (ds ! k)" by simp_all
  qed
qed

lemma date_window_none_late:
  assumes ne: "ds \<noteq> []"
    and a: "index_true (map (\<lambda>(p_open, p_close). p_open \<noteq> p_close) (zip po pc)) = Inr a"
    and b: "index_true (map (\<lambda>d. dt_ge d (or_default s DEFAULT_START_DATE)) ds) = Inr b"
    and late: "\<forall>d \<in> set ds. \<not> dt_lt (or_default e DEFAULT_END_DATE) d"
  shows "date_window po pc ds s e = Inr (max a b, length ds)"
proof -
  from py_max_total [OF ne] obtain m where m: "py_max ds = Inr m" by blast
  from py_max_Inr_D(1) [OF m] late have "\<not> dt_lt (or_default e DEFAULT_END_DATE) m" by blast
  with a b m show ?thesis
    by (simp add: date_window_def Let_def)
qed

lemma index_true_le:
  assumes "i < length bs" and "bs ! i"
  shows "\<exists>a. index_true bs = Inr a \<and> a \<le> i"
proof -
  from assms have "True \<in> set bs" using nth_mem [of i bs] by simp
  from index_true_total [OF this] obtain a where a: "index_true bs = Inr a" by blast
  then have "\<forall>k < a. \<not> bs ! k" by (simp add: index_true_Inr_iff)
  with assms(2) have "a \<le> i" by (meson not_le)
  with a show ?thesis by blast
qed

lemma surviving_lines_fixpoint:
  assumes "\<forall>l \<in> set ls. l \<noteq> [] \<and> \<not> sub_in ''null'' l
             \<and> distinct_ohlc (split_sep CHR '','' l)
             \<and> positive_open (split_sep CHR '','' l) = Inr True"
  shows "surviving_lines [] ls = Inr ls"
proof -
  from assms have k: "filter (keep_line []) ls = ls"
    by (simp add: keep_line_def filter_id_conv)
  from assms have d: "filter (\<lambda>l. distinct_ohlc (split_sep CHR '','' l)) ls = ls"
    by (simp add: filter_id_conv)
  from assms have p: "filter (\<lambda>l. positive_open (split_sep CHR '','' l) = Inr True) ls = ls"
    by (simp add: filter_id_conv)
  from assms show ?thesis
    by (auto simp: surviving_lines_def filterE_Inr_iff k d p)
qed

lemma set_slice_nth:
  assumes "x \<in> set (slice i j xs)"
  shows "\<exists>k. k < j \<and> k < length xs \<and> x = xs ! k"
proof -
  from assms obtain n where n: "n < length (take (j - i) (drop i xs))"
    and x: "x = take (j - i) (drop i xs) ! n"
    unfolding slice_def by (metis in_set_conv_nth)
  from n have "i + n < j" and "i + n < length xs" by auto
  moreover from n x have "x = xs ! (i + n)" by (auto simp: nth_drop)
  ultimately show ?thesis by blast
qed

text \<open>
  C5 (as the code has it). When the first row of the returned series has
  \<open>open \<noteq> close\<close> and is dated at or after the start date, cleaning the lines behind the
  series again (same window, no excluded dates) returns the identical series: the second
  pass finds \<open>d0 = 0\<close> and no date after the end date.
\<close>

theorem clean_again_identity:
  assumes gp: "get_prices_open_close_adj_dates raw s e b = Inr (po, pc, pa, ds)"
    and rl: "retained_lines raw s e b = Inr ls"
    and H1: "po \<noteq> [] \<and> po ! 0 \<noteq> pc ! 0"
    and H2: "ds \<noteq> [] \<and> dt_ge (ds ! 0) (or_default s DEFAULT_START_DATE)"
  shows "get_prices_open_close_adj_dates (hd raw # ls) s e None = Inr (po, pc, pa, ds)"
proof -
  let ?E = "or_default e DEFAULT_END_DATE"
  from columns_of_retained_lines [OF gp] rl
  have pcs: "price_columns (map (split_sep CHR '','') ls) = Inr (po, pc, pa, ds)"
    by auto
  from rl obtain h rest where raw: "raw = h # rest"
    by (cases raw) (simp_all add: retained_lines_def)
  from rl [unfolded raw retained_lines_Inr_iff] have h: "strip h = HEADER" by blast
  have sv: "surviving_lines [] ls = Inr ls"
    using retained_lines_D [OF rl] by (intro surviving_lines_fixpoint) blast
  have fd: "filtered_data (hd raw # ls) None = Inr (map (split_sep CHR '','') ls)"
    unfolding raw list.sel filtered_data_lines using h sv
    by (auto simp: or_default_def)
  have no_late: "\<forall>d \<in> set ds. \<not> dt_lt ?E d"
  proof
    fix d assume d: "d \<in> set ds"
    from gp [unfolded get_prices_Inr_iff] obtain po0 pc0 pa0 ds0 d0 d1 where
      dw: "date_window po0 pc0 ds0 s e = Inr (d0, d1)"
      and cols: "(po, pc, pa, ds) =
        (if 1 < d0 \<or> d1 < length ds0
         then (slice d0 d1 po0, slice d0 d1 pc0, slice d0 d1 pa0, slice d0 d1 ds0)
         else (po0, pc0, pa0, ds0))"
      by blast
    note D = date_window_D [OF dw]
    show "\<not> dt_lt ?E d"
    proof (cases "1 < d0 \<or> d1 < length ds0")
      case True
      with cols have "ds = slice d0 d1 ds0" by simp
      with d have "d \<in> set (slice d0 d1 ds0)" by simp
      from set_slice_nth [OF this] obtain k where "k < d1" "d = ds0 ! k" by blast
      with D(2) show ?thesis by blast
    next
      case False
      with cols have ds: "ds = ds0" by simp
      from False D(1) have "d1 = length ds0" by simp
      moreover from d ds obtain k where "k < length ds0" "d = ds0 ! k"
        by (metis in_set_conv_nth)
      ultimately show ?thesis using D(2) by blast
    qed
  qed
  from price_columns_lengths [OF pcs]
  have len: "length po = length ds" "length pc = length ds" by simp_all
  from H1 have i: "0 < length po" "po ! 0 \<noteq> pc ! 0" by simp_all
  with len have "0 < length (map (\<lambda>(p_open, p_close). p_open \<noteq> p_close) (zip po pc))"
    and "map (\<lambda>(p_open, p_close). p_open \<noteq> p_close) (zip po pc) ! 0"
    by simp_all
  from index_true_le [OF this] have
    a: "index_true (map (\<lambda>(p_open, p_close). p_open \<noteq> p_close) (zip po pc)) = Inr 0"
    by simp
  from H2 have j: "0 < length ds" "dt_ge (ds ! 0) (or_default s DEFAULT_START_DATE)"
    by simp_all
  then have "0 < length (map (\<lambda>d. dt_ge d (or_default s DEFAULT_START_DATE)) ds)"
    and "map (\<lambda>d. dt_ge d (or_default s DEFAULT_START_DATE)) ds ! 0"
    by simp_all
  from index_true_le [OF this] have
    b: "index_true (map (\<lambda>d. dt_ge d (or_default s DEFAULT_START_DATE)) ds) = Inr 0"
    by simp
  from H2 have ne: "ds \<noteq> []" by simp
  from date_window_none_late [OF ne a b no_late]
  have dw': "date_window po pc ds s e = Inr (0, length ds)" by simp
  with fd pcs show ?thesis
    by (simp add: get_prices_open_close_adj_dates_def)
qed

theorem clean_again_identity_witness:
  "get_prices_open_close_adj_dates csv_window None None None
     = Inr ([10, 10], [11, 21 / 2], [11, 21 / 2], [ymd 1990 1 2, ymd 1990 1 3])
   \<and> retained_lines csv_window None None None
     = Inr [''1990-01-02,10,12,9,11,11,0'', ''1990-01-03,10,12,9,10.5,10.5,0'']
   \<and> get_prices_open_close_adj_dates
       (hd csv_window # [''1990-01-02,10,12,9,11,11,0'', ''1990-01-03,10,12,9,10.5,10.5,0''])
       None None None
     = Inr ([10, 10], [11, 21 / 2], [11, 21 / 2], [ymd 1990 1 2, ymd 1990 1 3])"
proof -
  have gp: "get_prices_open_close_adj_dates csv_window None None None
     = Inr ([10, 10], [11, 21 / 2], [11, 21 / 2], [ymd 1990 1 2, ymd 1990 1 3])"
    by code_simp
  have rl: "retained_lines csv_window None None None
     = Inr [''1990-01-02,10,12,9,11,11,0'', ''1990-01-03,10,12,9,10.5,10.5,0'']"
    by code_simp
  have H1: "[10, 10 :: real] \<noteq> [] \<and> [10, 10 :: real] ! 0 \<noteq> [11, 21 / 2] ! 0"
    by simp
  have "dt_ge (ymd 1990 1 2) (or_default None DEFAULT_START_DATE)"
    by code_simp
  then have H2: "[ymd 1990 1 2, ymd 1990 1 3] \<noteq> []
         \<and> dt_ge ([ymd 1990 1 2, ymd 1990 1 3] ! 0) (or_default None DEFAULT_START_DATE)"
    by simp
  from clean_again_identity [OF gp rl H1 H2] gp rl show ?thesis by simp
qed

text \<open>
  C5 as stated fails: the window starts at rows with \<open>open = close\<close>; the first cleaning
  keeps them (the start date decides \<open>d0\<close>), the second drops them (now the first row
  with \<open>open \<noteq> close\<close> decides).
\<close>

theorem clean_again_differs:
  "get_prices_open_close_adj_dates csv_late_open None None None
     = Inr ([10, 10, 10], [10, 10, 11], [10, 10, 11],
            [ymd 1990 1 2, ymd 1990 1 3, ymd 1990 1 4])
   \<and> retained_lines csv_late_open None None None
     = Inr [''1990-01-02,10,12,9,10,10,0'', ''1990-01-03,10,12,9,10,10,0'',
            ''1990-01-04,10,12,9,11,11,0'']
   \<and> get_prices_open_close_adj_dates
       [hd csv_late_open, ''1990-01-02,10,12,9,10,10,0'', ''1990-01-03,10,12,9,10,10,0'',
        ''1990-01-04,10,12,9,11,11,0''] None None None
     = Inr ([10], [11], [11], [ymd 1990 1 4])
   \<and> get_prices_open_close_adj_dates
       [hd csv_late_open, ''1990-01-02,10,12,9,10,10,0'', ''1990-01-03,10,12,9,10,10,0'',
        ''1990-01-04,10,12,9,11,11,0''] None None None
     \<noteq> get_prices_open_close_adj_dates csv_late_open None None None"
  by code_simp

section \<open>The slice guard\<close>

text \<open>
  C1. The claim is that the rows with index below \<open>d0\<close> are absent from the result.
  The guard of the slice is \<open>d0 > 1\<close>: with \<open>d0 = 1\<close> and no row after the end date
  nothing is sliced. Here \<open>d0 = 1\<close> because the first row is dated before the start
  date, and that row is returned.
\<close>

theorem start_date_row_kept:
  "date_window [10, 11] [11, 12] [ymd 1989 12 29, ymd 1990 1 2] None None = Inr (1, 2)
   \<and> dt_lt (ymd 1989 12 29) DEFAULT_START_DATE
   \<and> get_prices_open_close_adj_dates csv_before_start None None None
       = Inr ([10, 11], [11, 12], [11, 12], [ymd 1989 12 29, ymd 1990 1 2])"
  by code_simp

end
